theory Spec2Isabelle
  imports Complex_Main "HOL-Library.AList"
begin

section \<open>Common types\<close>

text \<open>
  Python floats are idealised as exact rationals; a timestamp on the trading date is the
  number of microseconds since local midnight (the resolution of Python's datetime).
\<close>

type_synonym price = rat
type_synonym datetime = nat

text \<open>Exceptions of the source, as values.\<close>

datatype error = TypeError | ValueError | OSError | IndexError | AttributeError

text \<open>
  JSON-compatible Python values (the dicts handed to the checkpoint and read back from it).
  A dict is an association list in insertion order.
\<close>

datatype pyval =
    PNone
  | PBool bool
  | PInt int
  | PFloat rat
  | PStr string
  | PList "pyval list"
  | PDict "(string \<times> pyval) list"

definition dict_get :: "(string \<times> pyval) list \<Rightarrow> string \<Rightarrow> pyval \<Rightarrow> pyval" where
  "dict_get d k dflt = (case map_of d k of Some v \<Rightarrow> v | None \<Rightarrow> dflt)"

text \<open>
  Float arithmetic. A float value is the rational it denotes (finite values only); what
  the interpreter's operations return, rounding included, is not fixed here: the
  operations that the source applies to floats are the fields of a record, and every
  definition below that computes with floats takes it as its first argument.
  \<open>f_sum\<close> is sum() of a list, \<open>f_round x n\<close> is round(x, n).
\<close>

record float_ops =
  f_add :: "rat \<Rightarrow> rat \<Rightarrow> rat"
  f_sub :: "rat \<Rightarrow> rat \<Rightarrow> rat"
  f_mul :: "rat \<Rightarrow> rat \<Rightarrow> rat"
  f_div :: "rat \<Rightarrow> rat \<Rightarrow> rat"
  f_sum :: "rat list \<Rightarrow> rat"
  f_round :: "rat \<Rightarrow> nat \<Rightarrow> rat"

text \<open>
  What round-to-nearest arithmetic keeps of the exact operations: a result that is
  non-negative exactly is not rounded below zero.
\<close>

definition sign_preserving :: "float_ops \<Rightarrow> bool" where
  "sign_preserving fa =
     ((\<forall>xs. (\<forall>x\<in>set xs. 0 \<le> x) \<longrightarrow> 0 \<le> f_sum fa xs)
      \<and> (\<forall>x y. 0 \<le> x \<and> 0 \<le> y \<longrightarrow> 0 \<le> f_add fa x y \<and> 0 \<le> f_mul fa x y)
      \<and> (\<forall>x y. 0 \<le> x \<and> 0 < y \<longrightarrow> 0 \<le> f_div fa x y)
      \<and> (\<forall>x y. y \<le> x \<longrightarrow> 0 \<le> f_sub fa x y)
      \<and> (\<forall>x n. 0 \<le> x \<longrightarrow> 0 \<le> f_round fa x n))"

text \<open>
  One such arithmetic, without representation error: the exact operations, and rounding
  to the nearest multiple of 10 ** -ndigits with a tie going to the even multiple.
\<close>

definition decimal_round :: "rat \<Rightarrow> nat \<Rightarrow> rat" where
  "decimal_round x ndigits =
     (let s = 10 ^ ndigits;
          y = x * s;
          f = \<lfloor>y\<rfloor>;
          d = y - of_int f
      in (if d < 1 / 2 then of_int f
          else if 1 / 2 < d then of_int (f + 1)
          else if even f then of_int f
          else of_int (f + 1)) / s)"

definition exact_ops :: float_ops where
  "exact_ops =
     \<lparr>f_add = (+), f_sub = (-), f_mul = (*), f_div = (/), f_sum = sum_list,
      f_round = decimal_round\<rparr>"

section \<open>Configuration (config/settings.py)\<close>

definition ATR_PERIOD :: nat where "ATR_PERIOD = 14"
definition ATR_PRECISION :: nat where "ATR_PRECISION = 4"

section \<open>Tick buffer (modules/aggregator/tick\_buffer.py)\<close>

record OHLCCandle =
  window_start :: datetime
  open' :: price
  high :: price
  low :: price
  close :: price
  tick_count :: int

record TickBuffer =
  buffer :: "string \<rightharpoonup> OHLCCandle"
  active_window :: "datetime option"
  late_tick_count :: int
  future_tick_count :: int
  frozen :: bool



definition freeze :: "TickBuffer \<Rightarrow> TickBuffer" where
  "freeze b = b\<lparr>frozen := True\<rparr>"

text \<open>update returns the new buffer state and the accepted flag.\<close>

definition update :: "TickBuffer \<Rightarrow> string \<Rightarrow> price \<Rightarrow> datetime \<Rightarrow> TickBuffer \<times> bool" where
  "update b ticker p w =
     (if frozen b then (b\<lparr>late_tick_count := late_tick_count b + 1\<rparr>, False)
      else if active_window b \<noteq> None \<and> w < the (active_window b)
        then (b\<lparr>late_tick_count := late_tick_count b + 1\<rparr>, False)
      else if active_window b \<noteq> None \<and> w > the (active_window b)
        then (b\<lparr>future_tick_count := future_tick_count b + 1\<rparr>, False)
      else (case buffer b ticker of
              None \<Rightarrow>
                (b\<lparr>buffer := (buffer b)(ticker \<mapsto>
                     \<lparr>window_start = w, open' = p, high = p, low = p, close = p,
                      tick_count = 1\<rparr>)\<rparr>, True)
            | Some c \<Rightarrow>
                (b\<lparr>buffer := (buffer b)(ticker \<mapsto>
                     c\<lparr>high := max (high c) p, low := min (low c) p, close := p,
                       tick_count := tick_count c + 1\<rparr>)\<rparr>, True)))"

text \<open>snapshot\_and\_reset returns the new buffer state and the snapshot.\<close>

definition snapshot_and_reset :: "TickBuffer \<Rightarrow> TickBuffer \<times> (string \<rightharpoonup> OHLCCandle)" where
  "snapshot_and_reset b =
     (b\<lparr>buffer := Map.empty, late_tick_count := 0, future_tick_count := 0\<rparr>, buffer b)"

text \<open>
  The operations that the feed and scheduler activities can interleave on the buffer
  between a freeze and the next set\_active\_window.
\<close>

datatype buffer_op = OpUpdate string price datetime | OpSnapshot | OpFreeze

fun apply_buffer_op :: "TickBuffer \<Rightarrow> buffer_op \<Rightarrow> TickBuffer" where
  "apply_buffer_op b (OpUpdate t p w) = fst (update b t p w)"
| "apply_buffer_op b OpSnapshot = fst (snapshot_and_reset b)"
| "apply_buffer_op b OpFreeze = freeze b"

definition apply_buffer_ops :: "TickBuffer \<Rightarrow> buffer_op list \<Rightarrow> TickBuffer" where
  "apply_buffer_ops b ops = foldl apply_buffer_op b ops"

section \<open>ATR engine (modules/atr/atr\_engine.py)\<close>

record ATRState =
  prev_close :: "rat option"
  prev_atr :: "rat option"
  tr_history :: "rat list"
  candle_count :: int

definition ATRState_init :: ATRState where
  "ATRState_init = \<lparr>prev_close = None, prev_atr = None, tr_history = [], candle_count = 0\<rparr>"

text \<open>The engine's \_state dict, in insertion order.\<close>

type_synonym ATREngine = "(string \<times> ATRState) list"

definition ATREngine_init :: ATREngine where
  "ATREngine_init = []"

datatype atr_log = ATR_NEGATIVE string rat | ATR_JUMP string rat rat rat

definition opt_pyval :: "rat option \<Rightarrow> pyval" where
  "opt_pyval x = (case x of None \<Rightarrow> PNone | Some r \<Rightarrow> PFloat r)"

definition get_state :: "ATREngine \<Rightarrow> pyval" where
  "get_state e =
     PDict (map (\<lambda>(ticker, st). (ticker,
        PDict [(''prev_close'', opt_pyval (prev_close st)),
               (''prev_atr'', opt_pyval (prev_atr st)),
               (''tr_history'', PList (map PFloat (tr_history st))),
               (''candle_count'', PInt (candle_count st))])) e)"

text \<open>
  load\_state stores whatever the dict holds. The typed record can hold only values of the
  annotated field types, so the readers below give None for a value of another type and
  load\_state gives None for a dict with such a value.
\<close>

fun float_of_pyval :: "pyval \<Rightarrow> rat option" where
  "float_of_pyval (PFloat r) = Some r"
| "float_of_pyval (PInt i) = Some (of_int i)"
| "float_of_pyval _ = None"

fun opt_float_of_pyval :: "pyval \<Rightarrow> rat option option" where
  "opt_float_of_pyval PNone = Some None"
| "opt_float_of_pyval v = map_option Some (float_of_pyval v)"

fun float_list_of_pyval :: "pyval \<Rightarrow> rat list option" where
  "float_list_of_pyval (PList vs) = those (map float_of_pyval vs)"
| "float_list_of_pyval _ = None"

fun int_of_pyval :: "pyval \<Rightarrow> int option" where
  "int_of_pyval (PInt i) = Some i"
| "int_of_pyval _ = None"

fun load_state_entry :: "pyval \<Rightarrow> ATRState option" where
  "load_state_entry (PDict d) =
     (case (opt_float_of_pyval (dict_get d ''prev_close'' PNone),
            opt_float_of_pyval (dict_get d ''prev_atr'' PNone),
            float_list_of_pyval (dict_get d ''tr_history'' (PList [])),
            int_of_pyval (dict_get d ''candle_count'' (PInt 0))) of
        (Some pc, Some pa, Some h, Some n) \<Rightarrow>
          Some \<lparr>prev_close = pc, prev_atr = pa, tr_history = h, candle_count = n\<rparr>
      | _ \<Rightarrow> None)"
| "load_state_entry _ = None"

text \<open>The old \_state is cleared first, so the result does not depend on it.\<close>

fun load_state :: "pyval \<Rightarrow> ATREngine option" where
  "load_state (PDict kvs) =
     those (map (\<lambda>(ticker, data). map_option (Pair ticker) (load_state_entry data)) kvs)"
| "load_state _ = None"

definition compute_tr :: "float_ops \<Rightarrow> rat \<Rightarrow> rat \<Rightarrow> rat option \<Rightarrow> rat" where
  "compute_tr fa h l pc =
     (let range_hl = f_sub fa h l
      in case pc of
           None \<Rightarrow> f_round fa range_hl ATR_PRECISION
         | Some c \<Rightarrow>
             f_round fa (max range_hl (max \<bar>f_sub fa h c\<bar> \<bar>f_sub fa l c\<bar>)) ATR_PRECISION)"

text \<open>
  The steady-state block of compute\_atr. It multiplies state.prev\_atr, which is a
  TypeError in Python when prev\_atr is None.
\<close>

definition wilder_smoothing ::
    "float_ops \<Rightarrow> string \<Rightarrow> ATRState \<Rightarrow> rat \<Rightarrow>
     ATRState \<times> atr_log list \<times> (error + rat option)" where
  "wilder_smoothing fa ticker st tr =
     (case prev_atr st of
        None \<Rightarrow> (st, [], Inl TypeError)
      | Some p \<Rightarrow>
          (let atr0 = f_round fa
                        (f_div fa (f_add fa (f_mul fa p (of_nat (ATR_PERIOD - 1))) tr)
                           (of_nat ATR_PERIOD))
                        ATR_PRECISION;
               neg = (atr0 < 0);
               atr = (if neg then 0 else atr0);
               jump = (0 < p \<and> f_mul fa 3 p < atr)
           in (st\<lparr>prev_atr := Some atr\<rparr>,
               (if neg then [ATR_NEGATIVE ticker atr0] else []) @
               (if jump then [ATR_JUMP ticker p atr tr] else []),
               Inr (Some atr))))"

definition compute_atr_state ::
    "float_ops \<Rightarrow> string \<Rightarrow> ATRState \<Rightarrow> rat \<Rightarrow>
     ATRState \<times> atr_log list \<times> (error + rat option)" where
  "compute_atr_state fa ticker st0 tr =
     (let st = st0\<lparr>candle_count := candle_count st0 + 1\<rparr>
      in if prev_atr st = None then
           (let st1 = st\<lparr>tr_history := tr_history st @ [tr]\<rparr>
            in if length (tr_history st1) < ATR_PERIOD then (st1, [], Inr None)
               else if length (tr_history st1) = ATR_PERIOD then
                 (let atr = f_round fa
                              (f_div fa (f_sum fa (tr_history st1)) (of_nat ATR_PERIOD))
                              ATR_PRECISION;
                      st2 = st1\<lparr>prev_atr := Some atr, tr_history := []\<rparr>
                  in if atr < 0
                     then (st2\<lparr>prev_atr := Some 0\<rparr>, [ATR_NEGATIVE ticker atr], Inr (Some 0))
                     else (st2, [], Inr (Some atr)))
               else wilder_smoothing fa ticker st1 tr)
         else wilder_smoothing fa ticker st tr)"

text \<open>
  compute\_atr on the engine: the ticker's state is created when absent, and the mutated
  state object stays in the dict also when the call raises.
\<close>

definition compute_atr ::
    "float_ops \<Rightarrow> ATREngine \<Rightarrow> string \<Rightarrow> rat \<Rightarrow>
     ATREngine \<times> atr_log list \<times> (error + rat option)" where
  "compute_atr fa e ticker tr =
     (let st = (case map_of e ticker of None \<Rightarrow> ATRState_init | Some s \<Rightarrow> s);
          (st', logs, r) = compute_atr_state fa ticker st tr
      in (AList.update ticker st' e, logs, r))"

text \<open>
  A run of the engine: compute\_atr called for one (ticker, TR) after the other, the
  tickers in any order. The result is the engine after the last call and every call's
  result.
\<close>

fun feed_calls ::
    "float_ops \<Rightarrow> ATREngine \<Rightarrow> (string \<times> rat) list \<Rightarrow>
     ATREngine \<times> (error + rat option) list" where
  "feed_calls fa e [] = (e, [])"
| "feed_calls fa e ((ticker, tr) # calls) =
     (let (e', logs, r) = compute_atr fa e ticker tr;
          (e'', rs) = feed_calls fa e' calls
      in (e'', r # rs))"

text \<open>The TR values of one ticker's calls in a run, and the results of these calls.\<close>

definition trs_of :: "string \<Rightarrow> (string \<times> rat) list \<Rightarrow> rat list" where
  "trs_of ticker calls = map snd (filter (\<lambda>c. fst c = ticker) calls)"

definition results_of :: "string \<Rightarrow> (string \<times> rat) list \<Rightarrow> 'a list \<Rightarrow> 'a list" where
  "results_of ticker calls rs = map snd (filter (\<lambda>p. fst (fst p) = ticker) (zip calls rs))"

text \<open>The calls of one ticker alone.\<close>

fun feed_trs ::
    "float_ops \<Rightarrow> ATREngine \<Rightarrow> string \<Rightarrow> rat list \<Rightarrow>
     ATREngine \<times> (error + rat option) list" where
  "feed_trs fa e ticker [] = (e, [])"
| "feed_trs fa e ticker (tr # trs) =
     (let (e', logs, r) = compute_atr fa e ticker tr;
          (e'', rs) = feed_trs fa e' ticker trs
      in (e'', r # rs))"

text \<open>The warmup invariant of a per-ticker state.\<close>

definition warmup_inv :: "ATRState \<Rightarrow> bool" where
  "warmup_inv st = (prev_atr st = None \<longrightarrow> length (tr_history st) < ATR_PERIOD)"

text \<open>The state compute\_atr works on: the ticker's entry, or a fresh one.\<close>

definition state_of :: "ATREngine \<Rightarrow> string \<Rightarrow> ATRState" where
  "state_of e ticker = (case map_of e ticker of None \<Rightarrow> ATRState_init | Some s \<Rightarrow> s)"

section \<open>Time grid (utils/time\_utils.py)\<close>

text \<open>A time of day and a timedelta are microsecond counts as well.\<close>

definition time_of_day :: "nat \<Rightarrow> nat \<Rightarrow> nat" where
  "time_of_day h m = (h * 60 + m) * 60 * 1000000"








section \<open>Gap filler (modules/aggregator/gap\_fill.py)\<close>

text \<open>
  The dataclass OHLCCandle declares exactly these fields. Its generated constructor raises
  TypeError when the call passes a keyword that is not one of them; the first argument of
  \<open>OHLCCandle_new\<close> is the list of keywords the call site writes.
\<close>

definition OHLCCandle_fields :: "string list" where
  "OHLCCandle_fields =
     [''window_start'', ''open'', ''high'', ''low'', ''close'', ''tick_count'']"

definition OHLCCandle_new ::
    "string list \<Rightarrow> datetime \<Rightarrow> price \<Rightarrow> price \<Rightarrow> price \<Rightarrow> price \<Rightarrow> int \<Rightarrow> error + OHLCCandle" where
  "OHLCCandle_new keywords w o' h l c n =
     (if list_all (\<lambda>k. k \<in> set OHLCCandle_fields) keywords
      then Inr \<lparr>window_start = w, open' = o', high = h, low = l, close = c, tick_count = n\<rparr>
      else Inl TypeError)"

record GapFiller =
  last_close :: "string \<rightharpoonup> price"

definition GapFiller_init :: GapFiller where
  "GapFiller_init = \<lparr>last_close = Map.empty\<rparr>"

text \<open>
  The first loop of fill, over expected\_symbols; the accumulators are the candles dict,
  filled\_count, unfillable and filled\_symbols.
\<close>

fun fill_loop ::
    "(string \<rightharpoonup> price) \<Rightarrow> datetime \<Rightarrow> string list \<Rightarrow>
     (string \<rightharpoonup> OHLCCandle) \<times> nat \<times> string list \<times> string list \<Rightarrow>
     error + (string \<rightharpoonup> OHLCCandle) \<times> nat \<times> string list \<times> string list" where
  "fill_loop lc w [] acc = Inr acc"
| "fill_loop lc w (symbol # rest) (candles, filled_count, unfillable, filled_symbols) =
     (if candles symbol = None then
        (case lc symbol of
           Some c \<Rightarrow>
             (case OHLCCandle_new
                     [''window_start'', ''open'', ''high'', ''low'', ''close'', ''tick_count'',
                      ''gap_filled'']
                     w c c c c 0 of
                Inl e \<Rightarrow> Inl e
              | Inr flat_candle \<Rightarrow>
                  fill_loop lc w rest
                    (candles(symbol \<mapsto> flat_candle), filled_count + 1, unfillable,
                     filled_symbols @ [symbol]))
         | None \<Rightarrow>
             fill_loop lc w rest (candles, filled_count, unfillable @ [symbol], filled_symbols))
      else fill_loop lc w rest (candles, filled_count, unfillable, filled_symbols))"

text \<open>fill returns the new filler state, the merged candles and the unfillable symbols.\<close>

definition fill ::
    "GapFiller \<Rightarrow> (string \<rightharpoonup> OHLCCandle) \<Rightarrow> string list \<Rightarrow> datetime \<Rightarrow>
     error + GapFiller \<times> (string \<rightharpoonup> OHLCCandle) \<times> string list" where
  "fill g candles expected_symbols w =
     (case fill_loop (last_close g) w expected_symbols (candles, 0, [], []) of
        Inl e \<Rightarrow> Inl e
      | Inr (merged, filled_count, unfillable, filled_symbols) \<Rightarrow>
          Inr (g\<lparr>last_close :=
                   (\<lambda>s. case merged s of Some c \<Rightarrow> Some (close c) | None \<Rightarrow> last_close g s)\<rparr>,
               merged, unfillable))"

section \<open>Store client and write pipeline (sheets\_client.py, write\_pipeline.py)\<close>

definition MAX_RETRIES :: nat where "MAX_RETRIES = 5"
definition RETRY_BASE_DELAY_S :: nat where "RETRY_BASE_DELAY_S = 1"

text \<open>
  A batch as enqueue builds it. A row is a list of cells whose first cell is the row id.
\<close>

record WriteBatch =
  batch_window_start :: string
  rows :: "pyval list list"
  row_ids :: "string list"
  expected_count :: int

text \<open>
  What the store does when the writer talks to it: the outcome of reading the market\_data
  sheet for the dedup query, whether get\_sheet raises when \_write\_with\_retry asks for
  the sheet, and the response of append\_rows at each attempt.
\<close>

datatype sheet_read = GetSheetRaises | GetAllValuesRaises | Values "string list list"

datatype append_response = AppendRaises | AppendReturnsDict int | AppendReturnsOther

record SheetsStore =
  market_data_read :: sheet_read
  write_get_sheet_raises :: bool
  append_rows_response :: "nat \<Rightarrow> append_response"

datatype pipeline_event =
    DEDUP_QUERY_FAILED
  | DEDUP_CHECK_FAILED
  | DEDUP_SKIP string int
  | DEDUP_PARTIAL string nat nat int
  | DEDUP_FRESH string nat
  | AppendRows "pyval list list"
  | Sleep nat
  | PARTIAL_WRITE nat
  | WRITE_SUCCESS nat
  | WRITE_FAILED nat
  | RETRY_BACKOFF nat
  | WRITE_EXHAUSTED
  | LogEvent_CANDLE_WRITTEN string nat
  | SaveToFallback WriteBatch

text \<open>
  get\_existing\_ids\_for\_window. The argument is window\_start.isoformat(). get\_sheet is
  called outside the try, so its exception leaves the function; a failing read is caught
  and gives the empty set.
\<close>

definition get_existing_ids_for_window ::
    "SheetsStore \<Rightarrow> string \<Rightarrow> pipeline_event list \<times> (error + string set)" where
  "get_existing_ids_for_window store window_str =
     (case market_data_read store of
        GetSheetRaises \<Rightarrow> ([], Inl OSError)
      | GetAllValuesRaises \<Rightarrow> ([DEDUP_QUERY_FAILED], Inr {})
      | Values all_values \<Rightarrow>
          if all_values = [] \<or> length all_values \<le> 1 then ([], Inr {})
          else ([], Inr (set (map (\<lambda>row. row ! 0)
                   (filter (\<lambda>row. 2 \<le> length row \<and> row ! 1 = window_str)
                      (tl all_values))))))"

text \<open>The attempts of \_write\_with\_retry: attempt counts from 1, remaining is the
  number of iterations of the for loop still to run.\<close>

fun write_attempts ::
    "(nat \<Rightarrow> append_response) \<Rightarrow> pyval list list \<Rightarrow> nat \<Rightarrow> nat \<Rightarrow> pipeline_event list \<times> bool" where
  "write_attempts resp rs attempt 0 = ([WRITE_EXHAUSTED], False)"
| "write_attempts resp rs attempt (Suc remaining) =
     (let delay = RETRY_BASE_DELAY_S * 2 ^ (attempt - 1);
          (later, ok) = write_attempts resp rs (attempt + 1) remaining
      in case resp attempt of
           AppendRaises \<Rightarrow>
             (AppendRows rs # WRITE_FAILED attempt #
                (if attempt < MAX_RETRIES then [RETRY_BACKOFF delay, Sleep delay] else [])
                @ later, ok)
         | AppendReturnsDict updated_rows \<Rightarrow>
             if updated_rows \<noteq> int (length rs) then
               (if attempt < MAX_RETRIES
                then (AppendRows rs # PARTIAL_WRITE attempt # Sleep delay # later, ok)
                else ([AppendRows rs, PARTIAL_WRITE attempt], False))
             else ([AppendRows rs, WRITE_SUCCESS attempt], True)
         | AppendReturnsOther \<Rightarrow> ([AppendRows rs, WRITE_SUCCESS attempt], True))"

definition write_with_retry ::
    "SheetsStore \<Rightarrow> pyval list list \<Rightarrow> pipeline_event list \<times> (error + bool)" where
  "write_with_retry store rs =
     (if write_get_sheet_raises store then ([], Inl OSError)
      else (case write_attempts (append_rows_response store) rs 1 MAX_RETRIES of
              (events, ok) \<Rightarrow> (events, Inr ok)))"

text \<open>row[0] in ids\_to\_write, for each row; row[0] of an empty row is an IndexError.\<close>

fun cell_in :: "pyval \<Rightarrow> string set \<Rightarrow> bool" where
  "cell_in (PStr s) ids = (s \<in> ids)"
| "cell_in _ ids = False"

fun filter_rows :: "string set \<Rightarrow> pyval list list \<Rightarrow> error + pyval list list" where
  "filter_rows ids [] = Inr []"
| "filter_rows ids (row # rest) =
     (case row of
        [] \<Rightarrow> Inl IndexError
      | cell # _ \<Rightarrow>
          (case filter_rows ids rest of
             Inl e \<Rightarrow> Inl e
           | Inr kept \<Rightarrow> Inr (if cell_in cell ids then row # kept else kept)))"

text \<open>
  The dedup part of \_process\_batch (down to the choice of rows\_to\_write). The
  parameter isofmt gives datetime.fromisoformat(s).isoformat(), or None when fromisoformat
  raises. The result is the log so far and the rows handed to \_write\_with\_retry, None
  when the batch is skipped.
\<close>

definition rows_to_write ::
    "(string \<Rightarrow> string option) \<Rightarrow> SheetsStore \<Rightarrow> WriteBatch \<Rightarrow>
     pipeline_event list \<times> (error + pyval list list option)" where
  "rows_to_write isofmt store batch =
     (let window_str = batch_window_start batch;
          all_rows = rows batch;
          all_ids = set (row_ids batch);
          expected = expected_count batch;
          (log1, existing_ids) =
            (case isofmt window_str of
               None \<Rightarrow> ([DEDUP_CHECK_FAILED], {})
             | Some w \<Rightarrow>
                 (case get_existing_ids_for_window store w of
                    (l, Inl e) \<Rightarrow> (l @ [DEDUP_CHECK_FAILED], {})
                  | (l, Inr ids) \<Rightarrow> (l, ids)));
          ids_to_write = all_ids - existing_ids
      in if ids_to_write = {} then (log1 @ [DEDUP_SKIP window_str expected], Inr None)
         else if card ids_to_write < length all_rows then
           (case filter_rows ids_to_write all_rows of
              Inl e \<Rightarrow> (log1, Inl e)
            | Inr kept \<Rightarrow>
                (log1 @ [DEDUP_PARTIAL window_str (card existing_ids) (length kept) expected],
                 Inr (Some kept)))
         else (log1 @ [DEDUP_FRESH window_str (length all_rows)], Inr (Some all_rows)))"

text \<open>\_process\_batch: the effects in order, and the exception that leaves it, if any.\<close>

definition process_batch ::
    "(string \<Rightarrow> string option) \<Rightarrow> SheetsStore \<Rightarrow> WriteBatch \<Rightarrow>
     pipeline_event list \<times> error option" where
  "process_batch isofmt store batch =
     (case rows_to_write isofmt store batch of
        (log1, Inl e) \<Rightarrow> (log1, Some e)
      | (log1, Inr None) \<Rightarrow> (log1, None)
      | (log1, Inr (Some rs)) \<Rightarrow>
          (case write_with_retry store rs of
             (log2, Inl e) \<Rightarrow> (log1 @ log2, Some e)
           | (log2, Inr True) \<Rightarrow>
               (log1 @ log2 @ [LogEvent_CANDLE_WRITTEN (batch_window_start batch) (length rs)],
                None)
           | (log2, Inr False) \<Rightarrow> (log1 @ log2 @ [SaveToFallback batch], None)))"

text \<open>The rows that the effects append to the store.\<close>

fun appended_rows :: "pipeline_event list \<Rightarrow> pyval list list list" where
  "appended_rows [] = []"
| "appended_rows (AppendRows rs # es) = rs # appended_rows es"
| "appended_rows (_ # es) = appended_rows es"

text \<open>
  The ids the store holds for a window (the data rows below the header whose timestamp
  cell is the window), and a batch whose rows carry ids of its row\_ids, as enqueue
  builds it.
\<close>

definition store_has_id :: "string list list \<Rightarrow> string \<Rightarrow> string \<Rightarrow> bool" where
  "store_has_id all_values w i =
     list_ex (\<lambda>row. 2 \<le> length row \<and> row ! 0 = i \<and> row ! 1 = w) (tl all_values)"




section \<open>Reconnect operator (modules/websocket/reconnect\_manager.py)\<close>

record ReconnectManager =
  base_delay_s :: rat
  max_delay_s :: rat
  backoff_factor :: rat
  max_attempts :: int
  jitter :: bool
  alert_threshold :: int
  attempts :: nat

datatype severity = INFO | WARNING | CRITICAL

datatype reconnect_alert = RECONNECT_RECOVERED | RECONNECT_ATTEMPT | RECONNECT_FAILING
  | RECONNECT_EXHAUSTED

datatype reconnect_event =
    SleepFor rat
  | Refresh
  | Connect
  | Subscribe
  | Alert severity reconnect_alert nat

text \<open>What one refresh, connect, subscribe cycle does: which callback raises, if any.\<close>

datatype cycle = CycleOk | RefreshRaises | ConnectRaises | SubscribeRaises

definition reset :: "ReconnectManager \<Rightarrow> ReconnectManager" where
  "reset m = m\<lparr>attempts := 0\<rparr>"

fun callbacks_run :: "cycle \<Rightarrow> reconnect_event list" where
  "callbacks_run CycleOk = [Refresh, Connect, Subscribe]"
| "callbacks_run RefreshRaises = [Refresh]"
| "callbacks_run ConnectRaises = [Refresh, Connect]"
| "callbacks_run SubscribeRaises = [Refresh, Connect, Subscribe]"

text \<open>The backoff delay before an attempt; d is the value of random.uniform(0.75, 1.25).\<close>

definition backoff_delay :: "ReconnectManager \<Rightarrow> rat \<Rightarrow> rat" where
  "backoff_delay m d =
     (let delay = min (base_delay_s m * backoff_factor m ^ attempts m) (max_delay_s m)
      in if jitter m then delay * d else delay)"

definition count_attempt :: "ReconnectManager \<Rightarrow> ReconnectManager" where
  "count_attempt m = m\<lparr>attempts := attempts m + 1\<rparr>"

text \<open>The alerts of the except branch and of the success branch.\<close>

definition failure_alerts :: "ReconnectManager \<Rightarrow> reconnect_event list" where
  "failure_alerts m =
     (if attempts m = 1 then [Alert WARNING RECONNECT_ATTEMPT (attempts m)]
      else if alert_threshold m \<le> int (attempts m)
      then [Alert CRITICAL RECONNECT_FAILING (attempts m)]
      else [])"

definition recovery_alerts :: "ReconnectManager \<Rightarrow> reconnect_event list" where
  "recovery_alerts m =
     (if 1 < attempts m then [Alert INFO RECONNECT_RECOVERED (attempts m)] else [])"

text \<open>
  attempt\_reconnect. outcome k is what the k-th cycle of this call does and draw k the
  k-th value of random.uniform(0.75, 1.25). The alert callback is taken to return
  normally. time.sleep raises ValueError on a negative delay, outside the try.
  The result is the manager afterwards, the effects in order and the returned flag.
\<close>

function attempt_reconnect_loop ::
    "ReconnectManager \<Rightarrow> (nat \<Rightarrow> cycle) \<Rightarrow> (nat \<Rightarrow> rat) \<Rightarrow> nat \<Rightarrow>
     ReconnectManager \<times> reconnect_event list \<times> (error + bool)" where
  "attempt_reconnect_loop m outcome draw k =
     (if int (attempts m) < max_attempts m then
        (if backoff_delay m (draw k) < 0 then (m, [], Inl ValueError)
         else if outcome k = CycleOk then
           (reset (count_attempt m),
            SleepFor (backoff_delay m (draw k)) # callbacks_run CycleOk @
              recovery_alerts (count_attempt m),
            Inr True)
         else
           (case attempt_reconnect_loop (count_attempt m) outcome draw (k + 1) of
              (m2, later, r) \<Rightarrow>
                (m2,
                 SleepFor (backoff_delay m (draw k)) # callbacks_run (outcome k) @
                   failure_alerts (count_attempt m) @ later,
                 r)))
      else (m, [Alert CRITICAL RECONNECT_EXHAUSTED (attempts m)], Inr False))"
  by pat_completeness auto
termination
  by (relation "measure (\<lambda>(m, outcome, draw, k). nat (max_attempts m - int (attempts m)))")
     (auto simp: count_attempt_def)

declare attempt_reconnect_loop.simps [simp del]

definition attempt_reconnect ::
    "ReconnectManager \<Rightarrow> (nat \<Rightarrow> cycle) \<Rightarrow> (nat \<Rightarrow> rat) \<Rightarrow>
     ReconnectManager \<times> reconnect_event list \<times> (error + bool)" where
  "attempt_reconnect m outcome draw = attempt_reconnect_loop m outcome draw 0"

section \<open>Checkpoint manager (modules/recovery/checkpoint\_manager.py)\<close>

definition MAX_CHECKPOINT_FILES :: nat where "MAX_CHECKPOINT_FILES = 3"

text \<open>
  The checkpoint directory. A file holds the text of a JSON object, which json.load reads
  back as the dict that json.dump was given (keys are strings, floats are exact), or text
  that json.load rejects.
\<close>

datatype checkpoint_path = CheckpointJson | CheckpointN nat

datatype file_content = JsonObject "(string \<times> pyval) list" | Unparsable

type_synonym checkpoint_dir = "checkpoint_path \<rightharpoonup> file_content"

text \<open>
  What save\_checkpoint takes from outside: isoformat of the window, the current time as
  text, and whether writing the temp file and renaming it succeed.
\<close>

record save_env =
  isoformat :: "datetime \<Rightarrow> string"
  saved_at_now :: string
  write_succeeds :: bool

text \<open>The shift loop of \_rotate\_checkpoints, for i = n down to 1.\<close>

fun shift_backups :: "nat \<Rightarrow> checkpoint_dir \<Rightarrow> checkpoint_dir" where
  "shift_backups 0 dir = dir"
| "shift_backups (Suc n) dir =
     shift_backups n
       (if dir (CheckpointN (Suc n)) \<noteq> None
        then dir(CheckpointN (Suc (Suc n)) := dir (CheckpointN (Suc n)),
                 CheckpointN (Suc n) := None)
        else dir)"

definition rotate_checkpoints :: "checkpoint_dir \<Rightarrow> checkpoint_dir" where
  "rotate_checkpoints dir =
     (let dir1 = dir(CheckpointN MAX_CHECKPOINT_FILES := None);
          dir2 = shift_backups (MAX_CHECKPOINT_FILES - 1) dir1
      in if dir2 CheckpointJson \<noteq> None
         then dir2(CheckpointN 1 := dir2 CheckpointJson)
         else dir2)"

text \<open>
  save\_checkpoint returns the directory afterwards and the exception it re-raises, if
  any. A failed write leaves the rotated directory, the temp file removed.
\<close>

definition save_checkpoint ::
    "save_env \<Rightarrow> checkpoint_dir \<Rightarrow> pyval \<Rightarrow> datetime \<Rightarrow> bool \<Rightarrow> checkpoint_dir \<times> error option" where
  "save_checkpoint env dir atr_state last_window sheets_write_confirmed =
     (let checkpoint_data =
            [(''last_window'', PStr (isoformat env last_window)),
             (''atr_state'', atr_state),
             (''saved_at'', PStr (saved_at_now env)),
             (''sheets_write_confirmed'', PBool sheets_write_confirmed)];
          dir1 = rotate_checkpoints dir
      in if write_succeeds env
         then (dir1(CheckpointJson \<mapsto> JsonObject checkpoint_data), None)
         else (dir1, Some OSError))"

text \<open>len(), a TypeError on a value without a length.\<close>

fun py_len :: "pyval \<Rightarrow> error + nat" where
  "py_len (PDict d) = Inr (length d)"
| "py_len (PList vs) = Inr (length vs)"
| "py_len (PStr s) = Inr (length s)"
| "py_len _ = Inl TypeError"

text \<open>
  \_try\_load. The log line after the validation takes len() of the atr\_state value; a
  TypeError there is not among the exceptions the function catches.
\<close>

definition try_load :: "checkpoint_dir \<Rightarrow> checkpoint_path \<Rightarrow> error + pyval option" where
  "try_load dir path =
     (case dir path of
        None \<Rightarrow> Inr None
      | Some Unparsable \<Rightarrow> Inr None
      | Some (JsonObject data) \<Rightarrow>
          if map_of data ''last_window'' = None \<or> map_of data ''atr_state'' = None
          then Inr None
          else (case py_len (dict_get data ''atr_state'' (PDict [])) of
                  Inl e \<Rightarrow> Inl e
                | Inr n \<Rightarrow> Inr (Some (PDict data))))"

text \<open>The loop of load\_checkpoint over the rotated backups i, i + 1, ..., for n files.\<close>

fun load_backups :: "checkpoint_dir \<Rightarrow> nat \<Rightarrow> nat \<Rightarrow> error + pyval option" where
  "load_backups dir i 0 = Inr None"
| "load_backups dir i (Suc n) =
     (case try_load dir (CheckpointN i) of
        Inl e \<Rightarrow> Inl e
      | Inr (Some data) \<Rightarrow> Inr (Some data)
      | Inr None \<Rightarrow> load_backups dir (i + 1) n)"

definition load_checkpoint :: "checkpoint_dir \<Rightarrow> error + pyval option" where
  "load_checkpoint dir =
     (case try_load dir CheckpointJson of
        Inl e \<Rightarrow> Inl e
      | Inr (Some data) \<Rightarrow> Inr (Some data)
      | Inr None \<Rightarrow> load_backups dir 1 MAX_CHECKPOINT_FILES)"

section \<open>ATR batch (process\_batch of modules/atr/atr\_engine.py)\<close>

record EnrichedCandle =
  e_ticker :: string
  e_window_start :: datetime
  e_open :: price
  e_high :: price
  e_low :: price
  e_close :: price
  e_tr :: "rat option"
  e_atr :: "rat option"
  e_tick_count :: int
  e_gap_filled :: bool

text \<open>
  The read candle.gap\_filled in process\_batch: the candles are OHLCCandle objects, whose
  class declares no such attribute (see \<open>OHLCCandle_fields\<close>), so the read raises
  AttributeError.
\<close>

definition read_gap_filled :: "OHLCCandle \<Rightarrow> error + bool" where
  "read_gap_filled candle = Inl AttributeError"

text \<open>
  The loop of process\_batch over candles.items(): the engine afterwards and the enriched
  list, or the exception that leaves the loop.
\<close>

fun process_batch_loop ::
    "float_ops \<Rightarrow> ATREngine \<Rightarrow> (string \<times> OHLCCandle) list \<Rightarrow> EnrichedCandle list \<Rightarrow>
     ATREngine \<times> (error + EnrichedCandle list)" where
  "process_batch_loop fa e [] enriched = (e, Inr enriched)"
| "process_batch_loop fa e ((ticker, candle) # rest) enriched =
     (let pc = (case map_of e ticker of None \<Rightarrow> None | Some st \<Rightarrow> prev_close st);
          tr = compute_tr fa (high candle) (low candle) pc
      in case compute_atr fa e ticker tr of
           (e1, logs, Inl err) \<Rightarrow> (e1, Inl err)
         | (e1, logs, Inr atr) \<Rightarrow>
             (let e2 = AList.update ticker
                         ((state_of e1 ticker)\<lparr>prev_close := Some (close candle)\<rparr>) e1
              in case read_gap_filled candle of
                   Inl err \<Rightarrow> (e2, Inl err)
                 | Inr g \<Rightarrow>
                     process_batch_loop fa e2 rest
                       (enriched @
                        [\<lparr>e_ticker = ticker, e_window_start = window_start candle,
                          e_open = open' candle, e_high = high candle, e_low = low candle,
                          e_close = close candle, e_tr = Some tr, e_atr = atr,
                          e_tick_count = tick_count candle, e_gap_filled = g\<rparr>])))"

definition process_batch_atr ::
    "float_ops \<Rightarrow> ATREngine \<Rightarrow> (string \<times> OHLCCandle) list \<Rightarrow>
     ATREngine \<times> (error + EnrichedCandle list)" where
  "process_batch_atr fa e candles = process_batch_loop fa e candles []"

section \<open>Aggregator (modules/aggregator/candle\_aggregator.py)\<close>

datatype WindowState = COLLECTING | FREEZING | FROZEN | IDLE

record CandleAggregator =
  tick_buffer :: TickBuffer
  state :: WindowState
  current_window :: "datetime option"




section \<open>Orchestrator (main.py)\<close>

text \<open>
  The state \_finalize\_at\_boundary works on, and what its collaborators do at one
  boundary: process\_batch (the engine afterwards and the exception it raises, if any),
  enqueue, the checkpoint write, and get\_sheet in sync\_atr\_state (everything else in
  sync\_atr\_state is caught there).
\<close>

record VolatilityHarvester =
  aggregator :: CandleAggregator
  atr_engine :: ATREngine
  checkpoint_dir :: checkpoint_dir



section \<open>Freeze barrier\<close>

lemma apply_buffer_op_frozen: "frozen b \<Longrightarrow> frozen (apply_buffer_op b x)"
  by (cases x) (simp_all add: update_def snapshot_and_reset_def freeze_def)

lemma apply_buffer_ops_frozen: "frozen b \<Longrightarrow> frozen (apply_buffer_ops b ops)"
  unfolding apply_buffer_ops_def
  by (induction ops arbitrary: b) (simp_all add: apply_buffer_op_frozen)

text \<open>
  C6. After freeze() and any interleaving of further update, snapshot\_and\_reset and
  freeze calls (no set\_active\_window), every update call returns False, leaves the
  accumulator map, the active window, the frozen flag and the future-tick counter as they
  were, and increments the late-tick counter by one; snapshot\_and\_reset itself leaves
  the frozen flag and the active window untouched.
\<close>

theorem freeze_barrier:
  "(let b' = apply_buffer_ops (freeze b) ops in
      update b' ticker p w = (b'\<lparr>late_tick_count := late_tick_count b' + 1\<rparr>, False)
      \<and> buffer (fst (update b' ticker p w)) = buffer b'
      \<and> frozen (fst (snapshot_and_reset b')) = frozen b'
      \<and> active_window (fst (snapshot_and_reset b')) = active_window b')"
proof -
  have "frozen (apply_buffer_ops (freeze b) ops)"
    by (rule apply_buffer_ops_frozen) (simp add: freeze_def)
  then show ?thesis
    by (simp add: Let_def update_def snapshot_and_reset_def)
qed

section \<open>ATR warmup and Wilder smoothing\<close>

lemma decimal_round_nonneg: "0 \<le> x \<Longrightarrow> 0 \<le> decimal_round x n"
proof -
  assume x: "0 \<le> x"
  have y: "0 \<le> x * 10 ^ n" using x by simp
  then have f: "0 \<le> \<lfloor>x * 10 ^ n\<rfloor>" by simp
  then have "(0::rat) \<le> of_int \<lfloor>x * 10 ^ n\<rfloor>" and "(0::rat) \<le> of_int (\<lfloor>x * 10 ^ n\<rfloor> + 1)"
    by simp_all
  then show ?thesis
    by (simp add: decimal_round_def Let_def)
qed

lemma exact_ops_sign_preserving: "sign_preserving exact_ops"
  by (simp add: sign_preserving_def exact_ops_def decimal_round_nonneg sum_list_nonneg)

lemma sp_round: "sign_preserving fa \<Longrightarrow> 0 \<le> x \<Longrightarrow> 0 \<le> f_round fa x n"
  by (simp add: sign_preserving_def)

lemma sp_mean:
  assumes "sign_preserving fa" "\<forall>x\<in>set xs. 0 \<le> x"
  shows "0 \<le> f_round fa (f_div fa (f_sum fa xs) (of_nat ATR_PERIOD)) ATR_PRECISION"
proof -
  have "0 \<le> f_sum fa xs" using assms by (simp add: sign_preserving_def)
  moreover have "(0::rat) < of_nat ATR_PERIOD" by (simp add: ATR_PERIOD_def)
  ultimately have "0 \<le> f_div fa (f_sum fa xs) (of_nat ATR_PERIOD)"
    using assms(1) by (simp add: sign_preserving_def)
  then show ?thesis using assms(1) by (rule sp_round[rotated])
qed

lemma sp_wilder:
  assumes "sign_preserving fa" "0 \<le> p" "0 \<le> x"
  shows "0 \<le> f_round fa (f_div fa (f_add fa (f_mul fa p 13) x) 14) 4"
proof -
  have "0 \<le> f_mul fa p 13" using assms(1,2) by (simp add: sign_preserving_def)
  then have "0 \<le> f_add fa (f_mul fa p 13) x" using assms(1,3) by (simp add: sign_preserving_def)
  then have "0 \<le> f_div fa (f_add fa (f_mul fa p 13) x) 14"
    using assms(1) by (simp add: sign_preserving_def)
  then show ?thesis using assms(1) by (rule sp_round[rotated])
qed

text \<open>compute\_tr gives a non-negative TR for every bar with low \<le> high.\<close>

lemma compute_tr_nonneg:
  assumes "sign_preserving fa" "l \<le> h \<or> pc \<noteq> None"
  shows "0 \<le> compute_tr fa h l pc"
proof (cases pc)
  case None
  with assms(2) have "l \<le> h" by simp
  then have "0 \<le> f_sub fa h l" using assms(1) by (simp add: sign_preserving_def)
  then show ?thesis using None assms(1) by (simp add: compute_tr_def sp_round)
next
  case (Some c)
  have "0 \<le> max (f_sub fa h l) (max \<bar>f_sub fa h c\<bar> \<bar>f_sub fa l c\<bar>)" by simp
  then show ?thesis using Some assms(1) by (simp add: compute_tr_def sp_round)
qed

lemma compute_atr_state_of:
  "compute_atr fa e ticker tr =
     (case compute_atr_state fa ticker (state_of e ticker) tr of
        (st', logs, r) \<Rightarrow> (AList.update ticker st' e, logs, r))"
  by (simp add: compute_atr_def state_of_def Let_def)

lemma state_of_update: "state_of (AList.update ticker st e) ticker = st"
  by (simp add: state_of_def update_conv')

lemma state_of_update_other:
  "u \<noteq> ticker \<Longrightarrow> state_of (AList.update u st e) ticker = state_of e ticker"
  by (simp add: state_of_def update_conv')

lemma feed_trs_snoc:
  "feed_trs fa e ticker (xs @ [x]) =
     (case feed_trs fa e ticker xs of
        (e1, r1) \<Rightarrow> (case compute_atr fa e1 ticker x of (e2, logs, r) \<Rightarrow> (e2, r1 @ [r])))"
  by (induction xs arbitrary: e) (simp_all add: Let_def split: prod.splits)

lemma step_warm:
  assumes "prev_atr st = None" "Suc (length (tr_history st)) < ATR_PERIOD"
  shows "compute_atr_state fa ticker st x =
           (st\<lparr>candle_count := candle_count st + 1, tr_history := tr_history st @ [x]\<rparr>,
            [], Inr None)"
  using assms by (simp add: compute_atr_state_def Let_def)

lemma step_complete:
  assumes "prev_atr st = None" "Suc (length (tr_history st)) = ATR_PERIOD"
    and "0 \<le> f_round fa (f_div fa (f_sum fa (tr_history st @ [x])) (of_nat ATR_PERIOD))
                 ATR_PRECISION"
  shows "compute_atr_state fa ticker st x =
           (st\<lparr>candle_count := candle_count st + 1,
               tr_history := [],
               prev_atr := Some (f_round fa
                                   (f_div fa (f_sum fa (tr_history st @ [x])) (of_nat ATR_PERIOD))
                                   ATR_PRECISION)\<rparr>,
            [],
            Inr (Some (f_round fa
                         (f_div fa (f_sum fa (tr_history st @ [x])) (of_nat ATR_PERIOD))
                         ATR_PRECISION)))"
  using assms by (simp add: compute_atr_state_def Let_def)

lemma step_steady:
  assumes "sign_preserving fa" "prev_atr st = Some p" "0 \<le> p" "0 \<le> x"
  shows "\<exists>logs. compute_atr_state fa ticker st x =
           (st\<lparr>candle_count := candle_count st + 1,
               prev_atr := Some (f_round fa (f_div fa (f_add fa (f_mul fa p 13) x) 14) 4)\<rparr>,
            logs,
            Inr (Some (f_round fa (f_div fa (f_add fa (f_mul fa p 13) x) 14) 4)))"
proof -
  have "\<not> f_round fa (f_div fa (f_add fa (f_mul fa p 13) x) 14) 4 < 0"
    using sp_wilder[OF assms(1,3,4)] by simp
  then show ?thesis
    using assms(2)
    by (simp add: compute_atr_state_def wilder_smoothing_def Let_def ATR_PERIOD_def
        ATR_PRECISION_def)
qed

lemma feed_warmup:
  "length trs < ATR_PERIOD \<Longrightarrow>
     state_of (fst (feed_trs fa ATREngine_init ticker trs)) ticker =
       \<lparr>prev_close = None, prev_atr = None, tr_history = trs,
        candle_count = int (length trs)\<rparr>
     \<and> snd (feed_trs fa ATREngine_init ticker trs) = replicate (length trs) (Inr None)"
proof (induction trs rule: rev_induct)
  case Nil
  then show ?case by (simp add: state_of_def ATREngine_init_def ATRState_init_def)
next
  case (snoc x xs)
  then have len: "Suc (length xs) < ATR_PERIOD" by simp
  with snoc have ih:
    "state_of (fst (feed_trs fa ATREngine_init ticker xs)) ticker =
       \<lparr>prev_close = None, prev_atr = None, tr_history = xs, candle_count = int (length xs)\<rparr>"
    "snd (feed_trs fa ATREngine_init ticker xs) = replicate (length xs) (Inr None)"
    by simp_all
  obtain e1 r1 where f: "feed_trs fa ATREngine_init ticker xs = (e1, r1)" by force
  with ih have s1: "state_of e1 ticker =
       \<lparr>prev_close = None, prev_atr = None, tr_history = xs, candle_count = int (length xs)\<rparr>"
    and r1: "r1 = replicate (length xs) (Inr None)" by simp_all
  have "compute_atr_state fa ticker (state_of e1 ticker) x =
          ((state_of e1 ticker)\<lparr>candle_count := candle_count (state_of e1 ticker) + 1,
              tr_history := tr_history (state_of e1 ticker) @ [x]\<rparr>, [], Inr None)"
    by (rule step_warm) (simp_all add: s1 len)
  then show ?case
    by (simp add: feed_trs_snoc f compute_atr_state_of state_of_update s1 r1
        replicate_append_same)
qed

text \<open>The state and the last result once the warmup is over.\<close>

lemma feed_steady:
  assumes "sign_preserving fa" "\<forall>x\<in>set trs. 0 \<le> x" "ATR_PERIOD \<le> length trs"
  shows "\<exists>p. 0 \<le> p
           \<and> prev_atr (state_of (fst (feed_trs fa ATREngine_init ticker trs)) ticker) = Some p
           \<and> tr_history (state_of (fst (feed_trs fa ATREngine_init ticker trs)) ticker) = []
           \<and> snd (feed_trs fa ATREngine_init ticker trs) \<noteq> []
           \<and> last (snd (feed_trs fa ATREngine_init ticker trs)) = Inr (Some p)
           \<and> (length trs = ATR_PERIOD \<longrightarrow>
                p = f_round fa (f_div fa (f_sum fa trs) (of_nat ATR_PERIOD)) ATR_PRECISION)
           \<and> (ATR_PERIOD < length trs \<longrightarrow>
                (\<exists>q. prev_atr (state_of (fst (feed_trs fa ATREngine_init ticker (butlast trs)))
                                 ticker) = Some q
                   \<and> p = f_round fa (f_div fa (f_add fa (f_mul fa q 13) (last trs)) 14) 4))"
  using assms(2,3)
proof (induction trs rule: rev_induct)
  case Nil
  then show ?case by (simp add: ATR_PERIOD_def)
next
  case (snoc x xs)
  obtain e1 r1 where f: "feed_trs fa ATREngine_init ticker xs = (e1, r1)" by force
  have x0: "0 \<le> x" and xs0: "\<forall>y\<in>set xs. 0 \<le> y" using snoc.prems(1) by simp_all
  show ?case
  proof (cases "length xs < ATR_PERIOD")
    case True
    then have len: "Suc (length xs) = ATR_PERIOD" using snoc.prems(2) by simp
    from feed_warmup[OF True, of fa ticker] f have s1: "state_of e1 ticker =
       \<lparr>prev_close = None, prev_atr = None, tr_history = xs, candle_count = int (length xs)\<rparr>"
      by simp
    have nn: "0 \<le> f_round fa (f_div fa (f_sum fa (xs @ [x])) (of_nat ATR_PERIOD)) ATR_PRECISION"
      by (rule sp_mean[OF assms(1) snoc.prems(1)])
    have "compute_atr_state fa ticker (state_of e1 ticker) x =
           ((state_of e1 ticker)\<lparr>candle_count := candle_count (state_of e1 ticker) + 1,
               tr_history := [],
               prev_atr := Some (f_round fa
                   (f_div fa (f_sum fa (tr_history (state_of e1 ticker) @ [x]))
                      (of_nat ATR_PERIOD)) ATR_PRECISION)\<rparr>,
            [],
            Inr (Some (f_round fa
                   (f_div fa (f_sum fa (tr_history (state_of e1 ticker) @ [x]))
                      (of_nat ATR_PERIOD)) ATR_PRECISION)))"
      using nn by (intro step_complete) (simp_all add: s1 len)
    then show ?thesis
      using nn len
      by (simp add: feed_trs_snoc f compute_atr_state_of state_of_update s1)
  next
    case False
    then have ge: "ATR_PERIOD \<le> length xs" by simp
    from snoc.IH[OF xs0 ge] f obtain q where q: "0 \<le> q"
      "prev_atr (state_of e1 ticker) = Some q" "tr_history (state_of e1 ticker) = []"
      by auto
    from step_steady[OF assms(1) q(2) q(1) x0, of ticker] obtain logs where
      st: "compute_atr_state fa ticker (state_of e1 ticker) x =
           ((state_of e1 ticker)\<lparr>candle_count := candle_count (state_of e1 ticker) + 1,
               prev_atr := Some (f_round fa (f_div fa (f_add fa (f_mul fa q 13) x) 14) 4)\<rparr>,
            logs, Inr (Some (f_round fa (f_div fa (f_add fa (f_mul fa q 13) x) 14) 4)))"
      by blast
    have "0 \<le> f_round fa (f_div fa (f_add fa (f_mul fa q 13) x) 14) 4"
      by (rule sp_wilder[OF assms(1) q(1) x0])
    then show ?thesis
      using ge q f
      by (simp add: feed_trs_snoc compute_atr_state_of state_of_update st)
  qed
qed

lemma feed_trs_length: "length (snd (feed_trs fa e ticker trs)) = length trs"
proof (induction trs arbitrary: e)
  case Nil
  then show ?case by simp
next
  case (Cons a trs)
  obtain e' logs r where c: "compute_atr fa e ticker a = (e', logs, r)"
    by (cases "compute_atr fa e ticker a") auto
  obtain e'' rs where f: "feed_trs fa e' ticker trs = (e'', rs)" by force
  from Cons[of e'] f show ?case by (simp add: c)
qed

lemma feed_trs_append_snd:
  "snd (feed_trs fa e ticker (xs @ ys)) =
     snd (feed_trs fa e ticker xs) @ snd (feed_trs fa (fst (feed_trs fa e ticker xs)) ticker ys)"
proof (induction xs arbitrary: e)
  case Nil
  then show ?case by simp
next
  case (Cons a xs)
  obtain e' logs r where c: "compute_atr fa e ticker a = (e', logs, r)"
    by (cases "compute_atr fa e ticker a") auto
  obtain e'' rs where f: "feed_trs fa e' ticker xs = (e'', rs)" by force
  obtain e3 rs3 where g: "feed_trs fa e' ticker (xs @ ys) = (e3, rs3)" by force
  from Cons[of e'] f g show ?case by (simp add: c)
qed

lemma feed_trs_nth:
  assumes "i < length trs"
  shows "snd (feed_trs fa e ticker trs) ! i =
           last (snd (feed_trs fa e ticker (take (Suc i) trs)))"
proof -
  have "trs = take (Suc i) trs @ drop (Suc i) trs" by simp
  then have "snd (feed_trs fa e ticker trs) ! i =
      (snd (feed_trs fa e ticker (take (Suc i) trs)) @
       snd (feed_trs fa (fst (feed_trs fa e ticker (take (Suc i) trs))) ticker
              (drop (Suc i) trs))) ! i"
    by (metis feed_trs_append_snd)
  also have "\<dots> = snd (feed_trs fa e ticker (take (Suc i) trs)) ! i"
    using assms by (simp add: nth_append feed_trs_length)
  also have "\<dots> = last (snd (feed_trs fa e ticker (take (Suc i) trs)))"
    using assms
    by (subst last_conv_nth) (auto simp: feed_trs_length dest: arg_cong[where f=length])
  finally show ?thesis .
qed

text \<open>One ticker alone, from the empty engine.\<close>

lemma single_ticker_warmup_then_wilder:
  assumes "sign_preserving fa" "\<forall>x\<in>set trs. 0 \<le> x"
  shows "(\<forall>i<length trs. i < 13 \<longrightarrow> snd (feed_trs fa ATREngine_init ticker trs) ! i = Inr None)
     \<and> (14 \<le> length trs \<longrightarrow>
          snd (feed_trs fa ATREngine_init ticker trs) ! 13 =
            Inr (Some (f_round fa (f_div fa (f_sum fa (take 14 trs)) 14) 4)))
     \<and> (\<forall>i. 14 \<le> i \<and> i < length trs \<longrightarrow>
          (\<exists>q. snd (feed_trs fa ATREngine_init ticker trs) ! (i - 1) = Inr (Some q)
             \<and> snd (feed_trs fa ATREngine_init ticker trs) ! i =
                 Inr (Some (f_round fa (f_div fa (f_add fa (f_mul fa q 13) (trs ! i)) 14) 4))))"
proof (intro conjI allI impI)
  fix i assume i: "i < length trs" "i < 13"
  then have "length (take (Suc i) trs) < ATR_PERIOD" by (simp add: ATR_PERIOD_def)
  from feed_warmup[OF this, of fa ticker]
  have "snd (feed_trs fa ATREngine_init ticker (take (Suc i) trs)) =
          replicate (length (take (Suc i) trs)) (Inr None)" by simp
  moreover have "length (take (Suc i) trs) = Suc i" using i by simp
  ultimately have "last (snd (feed_trs fa ATREngine_init ticker (take (Suc i) trs))) = Inr None"
    by simp
  then show "snd (feed_trs fa ATREngine_init ticker trs) ! i = Inr None"
    using feed_trs_nth[OF i(1)] by simp
next
  assume len: "14 \<le> length trs"
  have nn: "\<forall>x\<in>set (take 14 trs). 0 \<le> x" using assms(2) by (meson in_set_takeD)
  have l14: "length (take 14 trs) = ATR_PERIOD" using len by (simp add: ATR_PERIOD_def)
  then have "ATR_PERIOD \<le> length (take 14 trs)" by simp
  from feed_steady[OF assms(1) nn this, of ticker] l14 obtain p where p:
    "last (snd (feed_trs fa ATREngine_init ticker (take 14 trs))) = Inr (Some p)"
    "p = f_round fa (f_div fa (f_sum fa (take 14 trs)) (of_nat ATR_PERIOD)) ATR_PRECISION"
    by auto
  have "snd (feed_trs fa ATREngine_init ticker trs) ! 13 =
          last (snd (feed_trs fa ATREngine_init ticker (take (Suc 13) trs)))"
    by (rule feed_trs_nth) (use len in simp)
  then show "snd (feed_trs fa ATREngine_init ticker trs) ! 13 =
            Inr (Some (f_round fa (f_div fa (f_sum fa (take 14 trs)) 14) 4))"
    using p by (simp add: ATR_PERIOD_def ATR_PRECISION_def)
next
  fix i assume i: "14 \<le> i \<and> i < length trs"
  let ?cur = "take (Suc i) trs" and ?prev = "take i trs"
  have nn1: "\<forall>x\<in>set ?cur. 0 \<le> x" and nn0: "\<forall>x\<in>set ?prev. 0 \<le> x"
    using assms(2) by (meson in_set_takeD)+
  have l1: "length ?cur = Suc i" and l0: "length ?prev = i" using i by simp_all
  have bl: "butlast ?cur = ?prev" using i by (simp add: butlast_take)
  have la: "last ?cur = trs ! i" using i by (simp add: take_Suc_conv_app_nth)
  have "ATR_PERIOD \<le> length ?cur" "ATR_PERIOD < length ?cur"
    using i l1 by (simp_all add: ATR_PERIOD_def)
  from feed_steady[OF assms(1) nn1 this(1), of ticker] this(2) bl la obtain p q where pq:
    "last (snd (feed_trs fa ATREngine_init ticker ?cur)) = Inr (Some p)"
    "prev_atr (state_of (fst (feed_trs fa ATREngine_init ticker ?prev)) ticker) = Some q"
    "p = f_round fa (f_div fa (f_add fa (f_mul fa q 13) (trs ! i)) 14) 4"
    by auto
  have "ATR_PERIOD \<le> length ?prev" using i l0 by (simp add: ATR_PERIOD_def)
  from feed_steady[OF assms(1) nn0 this, of ticker] pq(2)
  have q: "last (snd (feed_trs fa ATREngine_init ticker ?prev)) = Inr (Some q)"
    by auto
  have "i - 1 < length trs" and "Suc (i - 1) = i" using i by auto
  with feed_trs_nth[of "i - 1" trs fa ATREngine_init ticker]
  have a: "snd (feed_trs fa ATREngine_init ticker trs) ! (i - 1) = Inr (Some q)"
    using q by simp
  have b: "snd (feed_trs fa ATREngine_init ticker trs) ! i = Inr (Some p)"
    using feed_trs_nth[of i trs fa ATREngine_init ticker] i pq(1) by simp
  show "\<exists>q. snd (feed_trs fa ATREngine_init ticker trs) ! (i - 1) = Inr (Some q)
             \<and> snd (feed_trs fa ATREngine_init ticker trs) ! i =
                 Inr (Some (f_round fa (f_div fa (f_add fa (f_mul fa q 13) (trs ! i)) 14) 4))"
    using a b pq(3) by blast
qed

text \<open>
  In a run over several tickers, the calls of other tickers leave a ticker's state alone:
  its results and its state are those of its own calls.
\<close>

lemma trs_of_Cons:
  "trs_of ticker ((u, x) # calls) =
     (if u = ticker then x # trs_of ticker calls else trs_of ticker calls)"
  by (simp add: trs_of_def)

lemma results_of_Cons:
  "results_of ticker ((u, x) # calls) (r # rs) =
     (if u = ticker then r # results_of ticker calls rs else results_of ticker calls rs)"
  by (simp add: results_of_def)

lemma feed_calls_project:
  assumes "state_of e1 ticker = state_of e2 ticker"
  shows "results_of ticker calls (snd (feed_calls fa e1 calls)) =
           snd (feed_trs fa e2 ticker (trs_of ticker calls))
         \<and> state_of (fst (feed_calls fa e1 calls)) ticker =
           state_of (fst (feed_trs fa e2 ticker (trs_of ticker calls))) ticker"
  using assms
proof (induction calls arbitrary: e1 e2)
  case Nil
  then show ?case by (simp add: results_of_def trs_of_def)
next
  case (Cons c calls)
  obtain u x where c: "c = (u, x)" by force
  obtain st1 logs1 r1 where s1: "compute_atr_state fa u (state_of e1 u) x = (st1, logs1, r1)"
    by (cases "compute_atr_state fa u (state_of e1 u) x") auto
  have c1: "compute_atr fa e1 u x = (AList.update u st1 e1, logs1, r1)"
    by (simp add: compute_atr_state_of s1)
  obtain f1 rs1 where f1: "feed_calls fa (AList.update u st1 e1) calls = (f1, rs1)" by force
  have fc: "feed_calls fa e1 (c # calls) = (f1, r1 # rs1)"
    by (simp add: c c1 f1)
  show ?case
  proof (cases "u = ticker")
    case True
    have s2: "compute_atr_state fa ticker (state_of e2 ticker) x = (st1, logs1, r1)"
      using s1 True Cons.prems by simp
    have c2: "compute_atr fa e2 ticker x = (AList.update ticker st1 e2, logs1, r1)"
      by (simp add: compute_atr_state_of s2)
    obtain f2 rs2 where
      f2: "feed_trs fa (AList.update ticker st1 e2) ticker (trs_of ticker calls) = (f2, rs2)"
      by force
    have ft: "feed_trs fa e2 ticker (trs_of ticker (c # calls)) = (f2, r1 # rs2)"
      using True by (simp add: c trs_of_Cons c2 f2)
    have "state_of (AList.update u st1 e1) ticker = state_of (AList.update ticker st1 e2) ticker"
      using True by (simp add: state_of_update)
    from Cons.IH[OF this] f1 f2
    have "results_of ticker calls rs1 = rs2" "state_of f1 ticker = state_of f2 ticker"
      by simp_all
    then show ?thesis
      unfolding fc ft using True by (simp add: c results_of_Cons)
  next
    case False
    have ft: "feed_trs fa e2 ticker (trs_of ticker (c # calls)) =
                feed_trs fa e2 ticker (trs_of ticker calls)"
      using False by (simp add: c trs_of_Cons)
    have "state_of (AList.update u st1 e1) ticker = state_of e2 ticker"
      using False Cons.prems by (simp add: state_of_update_other)
    from Cons.IH[OF this] f1
    have "results_of ticker calls rs1 = snd (feed_trs fa e2 ticker (trs_of ticker calls))"
      "state_of f1 ticker = state_of (fst (feed_trs fa e2 ticker (trs_of ticker calls))) ticker"
      by simp_all
    then show ?thesis
      unfolding fc ft using False by (simp add: c results_of_Cons)
  qed
qed

text \<open>
  C1. In every run of the engine from its empty state, whatever other tickers are fed in
  between, for every instrument whose TR values are non-negative (as compute\_tr gives
  for every bar with low \<le> high, see \<open>compute_tr_nonneg\<close>): each of its first 13
  calls of compute\_atr returns None; the 14th returns round(sum of its 14 TR values / 14, 4)
  and leaves its tr\_history empty; every later call returns
  round(((q * 13) + TR) / 14, 4), q being the value returned by its call before. The
  arithmetic is the interpreter's, whatever it rounds to, as long as it does not round a
  non-negative result below zero.
\<close>

theorem atr_warmup_then_wilder:
  assumes "sign_preserving fa"
    and "\<forall>c\<in>set calls. fst c = ticker \<longrightarrow> 0 \<le> snd c"
  shows "length (results_of ticker calls (snd (feed_calls fa ATREngine_init calls))) =
           length (trs_of ticker calls)
     \<and> (\<forall>i<length (trs_of ticker calls). i < 13 \<longrightarrow>
          results_of ticker calls (snd (feed_calls fa ATREngine_init calls)) ! i = Inr None)
     \<and> (14 \<le> length (trs_of ticker calls) \<longrightarrow>
          results_of ticker calls (snd (feed_calls fa ATREngine_init calls)) ! 13 =
            Inr (Some (f_round fa (f_div fa (f_sum fa (take 14 (trs_of ticker calls))) 14) 4)))
     \<and> (\<forall>n. length (trs_of ticker (take n calls)) = 14 \<longrightarrow>
          tr_history (state_of (fst (feed_calls fa ATREngine_init (take n calls))) ticker) = [])
     \<and> (\<forall>i. 14 \<le> i \<and> i < length (trs_of ticker calls) \<longrightarrow>
          (\<exists>q. results_of ticker calls (snd (feed_calls fa ATREngine_init calls)) ! (i - 1)
                  = Inr (Some q)
             \<and> results_of ticker calls (snd (feed_calls fa ATREngine_init calls)) ! i =
                 Inr (Some (f_round fa
                   (f_div fa (f_add fa (f_mul fa q 13) (trs_of ticker calls ! i)) 14) 4))))"
proof -
  have nn: "\<forall>x\<in>set (trs_of ticker calls). 0 \<le> x"
    using assms(2) by (auto simp: trs_of_def)
  have pr: "results_of ticker calls (snd (feed_calls fa ATREngine_init calls)) =
              snd (feed_trs fa ATREngine_init ticker (trs_of ticker calls))"
    using feed_calls_project[of ATREngine_init ticker ATREngine_init calls fa] by simp
  have hist: "tr_history (state_of (fst (feed_calls fa ATREngine_init (take n calls))) ticker) = []"
    if n: "length (trs_of ticker (take n calls)) = 14" for n
  proof -
    have "\<forall>x\<in>set (trs_of ticker (take n calls)). 0 \<le> x"
      using assms(2) by (auto simp: trs_of_def dest!: in_set_takeD)
    moreover have "ATR_PERIOD \<le> length (trs_of ticker (take n calls))"
      using n by (simp add: ATR_PERIOD_def)
    ultimately have "tr_history (state_of (fst (feed_trs fa ATREngine_init ticker
                        (trs_of ticker (take n calls)))) ticker) = []"
      using feed_steady[OF assms(1), of "trs_of ticker (take n calls)" ticker] by blast
    then show ?thesis
      using feed_calls_project[of ATREngine_init ticker ATREngine_init "take n calls" fa]
      by simp
  qed
  show ?thesis
    unfolding pr
    using single_ticker_warmup_then_wilder[OF assms(1) nn, of ticker] hist
    by (simp add: feed_trs_length)
qed

theorem atr_warmup_then_wilder_witness:
  "results_of ''X''
     (map (Pair ''X'') [1, 1, 1, 1, 1, 1] @ [(''Y'', 5)] @
      map (Pair ''X'') [1, 1, 1, 1, 1, 1, 1, 3, 2])
     (snd (feed_calls exact_ops ATREngine_init
        (map (Pair ''X'') [1, 1, 1, 1, 1, 1] @ [(''Y'', 5)] @
         map (Pair ''X'') [1, 1, 1, 1, 1, 1, 1, 3, 2]))) ! 12 = Inr None
   \<and> results_of ''X''
     (map (Pair ''X'') [1, 1, 1, 1, 1, 1] @ [(''Y'', 5)] @
      map (Pair ''X'') [1, 1, 1, 1, 1, 1, 1, 3, 2])
     (snd (feed_calls exact_ops ATREngine_init
        (map (Pair ''X'') [1, 1, 1, 1, 1, 1] @ [(''Y'', 5)] @
         map (Pair ''X'') [1, 1, 1, 1, 1, 1, 1, 3, 2]))) ! 13 = Inr (Some (11429 / 10000))
   \<and> results_of ''X''
     (map (Pair ''X'') [1, 1, 1, 1, 1, 1] @ [(''Y'', 5)] @
      map (Pair ''X'') [1, 1, 1, 1, 1, 1, 1, 3, 2])
     (snd (feed_calls exact_ops ATREngine_init
        (map (Pair ''X'') [1, 1, 1, 1, 1, 1] @ [(''Y'', 5)] @
         map (Pair ''X'') [1, 1, 1, 1, 1, 1, 1, 3, 2]))) ! 14 = Inr (Some (12041 / 10000))"
proof -
  define calls :: "(string \<times> rat) list" where
    "calls = map (Pair ''X'') [1, 1, 1, 1, 1, 1] @ [(''Y'', 5)] @
             map (Pair ''X'') [1, 1, 1, 1, 1, 1, 1, 3, 2]"
  define rs where "rs = results_of ''X'' calls (snd (feed_calls exact_ops ATREngine_init calls))"
  have trs: "trs_of ''X'' calls = [1, 1, 1, 1, 1, 1, 1, 1, 1, 1, 1, 1, 1, 3, 2]"
    by (simp add: calls_def trs_of_def)
  have h: "\<forall>c\<in>set calls. fst c = ''X'' \<longrightarrow> 0 \<le> snd c"
    by (auto simp: calls_def)
  note T = atr_warmup_then_wilder[OF exact_ops_sign_preserving h, folded rs_def, unfolded trs]
  have a: "rs ! 12 = Inr None"
    using T[THEN conjunct2, THEN conjunct1, rule_format, of 12] by simp
  have b: "rs ! 13 = Inr (Some (f_round exact_ops (f_div exact_ops
              (f_sum exact_ops (take 14 [1, 1, 1, 1, 1, 1, 1, 1, 1, 1, 1, 1, 1, 3, 2])) 14) 4))"
    using T[THEN conjunct2, THEN conjunct2, THEN conjunct1] by simp
  have b': "f_round exact_ops (f_div exact_ops
              (f_sum exact_ops (take 14 [1, 1, 1, 1, 1, 1, 1, 1, 1, 1, 1, 1, 1, 3, 2])) 14) 4
            = 11429 / 10000"
    by code_simp
  obtain q where q1: "rs ! 13 = Inr (Some q)"
    and q2: "rs ! 14 = Inr (Some (f_round exact_ops
                (f_div exact_ops (f_add exact_ops (f_mul exact_ops q 13) 2) 14) 4))"
    using T[THEN conjunct2, THEN conjunct2, THEN conjunct2, THEN conjunct2, rule_format, of 14]
    by auto
  have qv: "q = 11429 / 10000"
    using q1 b b' by (simp only: sum.inject option.inject)
  have c': "f_round exact_ops
              (f_div exact_ops (f_add exact_ops (f_mul exact_ops (11429 / 10000) 13) 2) 14) 4
            = 12041 / 10000"
    by code_simp
  have c: "rs ! 14 = Inr (Some (12041 / 10000))"
    using q2 unfolding qv c' .
  show ?thesis
    using a b[unfolded b'] c unfolding rs_def calls_def by simp
qed

section \<open>The warmup invariant\<close>

lemma compute_atr_state_inv:
  assumes "warmup_inv st"
  shows "(\<exists>r. snd (snd (compute_atr_state fa ticker st tr)) = Inr r)
         \<and> warmup_inv (fst (compute_atr_state fa ticker st tr))"
proof (cases "prev_atr st")
  case None
  with assms have "length (tr_history st) < ATR_PERIOD" by (simp add: warmup_inv_def)
  then have "Suc (length (tr_history st)) < ATR_PERIOD
             \<or> Suc (length (tr_history st)) = ATR_PERIOD" by auto
  then show ?thesis
    using None by (auto simp: compute_atr_state_def Let_def warmup_inv_def)
next
  case (Some p)
  then show ?thesis
    by (simp add: compute_atr_state_def wilder_smoothing_def Let_def warmup_inv_def)
qed

lemma compute_atr_state_violation:
  assumes "\<not> warmup_inv st"
  shows "snd (snd (compute_atr_state fa ticker st tr)) = Inl TypeError"
  using assms
  by (auto simp: compute_atr_state_def wilder_smoothing_def Let_def warmup_inv_def)

lemma those_map_float: "those (map (float_of_pyval \<circ> PFloat) h) = Some h"
  by (induction h) simp_all

lemma load_state_violating:
  "load_state (PDict [(ticker, PDict [(''prev_atr'', PNone),
                                      (''tr_history'', PList (map PFloat h))])]) =
     Some [(ticker, \<lparr>prev_close = None, prev_atr = None, tr_history = h, candle_count = 0\<rparr>)]"
  by (simp add: dict_get_def those_map_float)

text \<open>
  C8. When the ticker's state satisfies the warmup invariant (prev\_atr is None implies
  fewer than 14 entries in tr\_history), compute\_atr returns normally, so the Wilder
  expression is not evaluated on a None prev\_atr, and the state after the call satisfies
  the invariant again. When the state violates it, the call reaches that expression with
  None and raises TypeError; load\_state builds such a state from a dict with a
  tr\_history of 14 or more entries and no prev\_atr.
\<close>

theorem warmup_invariant_guards_smoothing:
  "(warmup_inv (state_of e ticker) \<longrightarrow>
      (\<exists>r. snd (snd (compute_atr fa e ticker tr)) = Inr r)
      \<and> warmup_inv (state_of (fst (compute_atr fa e ticker tr)) ticker))
   \<and> (\<not> warmup_inv (state_of e ticker) \<longrightarrow>
        snd (snd (compute_atr fa e ticker tr)) = Inl TypeError)
   \<and> (ATR_PERIOD \<le> length h \<longrightarrow>
        (\<exists>e'. load_state (PDict [(ticker, PDict [(''prev_atr'', PNone),
                                      (''tr_history'', PList (map PFloat h))])]) = Some e'
           \<and> \<not> warmup_inv (state_of e' ticker)
           \<and> snd (snd (compute_atr fa e' ticker tr)) = Inl TypeError))"
proof (intro conjI impI)
  obtain st' logs r where
    c: "compute_atr_state fa ticker (state_of e ticker) tr = (st', logs, r)"
    by (cases "compute_atr_state fa ticker (state_of e ticker) tr") auto
  have ca: "compute_atr fa e ticker tr = (AList.update ticker st' e, logs, r)"
    by (simp add: compute_atr_state_of c)
  {
    assume inv: "warmup_inv (state_of e ticker)"
    from compute_atr_state_inv[OF inv, of fa ticker tr] c
    show "\<exists>r. snd (snd (compute_atr fa e ticker tr)) = Inr r"
      and "warmup_inv (state_of (fst (compute_atr fa e ticker tr)) ticker)"
      by (simp_all add: ca state_of_update)
  }
  {
    assume "\<not> warmup_inv (state_of e ticker)"
    from compute_atr_state_violation[OF this, of fa ticker tr] c
    show "snd (snd (compute_atr fa e ticker tr)) = Inl TypeError"
      by (simp add: ca)
  }
  {
    assume len: "ATR_PERIOD \<le> length h"
    let ?st = "\<lparr>prev_close = None, prev_atr = None, tr_history = h, candle_count = 0\<rparr>"
    have v: "\<not> warmup_inv (state_of [(ticker, ?st)] ticker)"
      using len by (simp add: state_of_def warmup_inv_def)
    obtain st2 logs2 r2 where
      c2: "compute_atr_state fa ticker (state_of [(ticker, ?st)] ticker) tr = (st2, logs2, r2)"
      by (cases "compute_atr_state fa ticker (state_of [(ticker, ?st)] ticker) tr") auto
    from compute_atr_state_violation[OF v, of fa ticker tr] c2
    have "snd (snd (compute_atr fa [(ticker, ?st)] ticker tr)) = Inl TypeError"
      by (simp add: compute_atr_state_of)
    with v show "\<exists>e'. load_state (PDict [(ticker, PDict [(''prev_atr'', PNone),
                                      (''tr_history'', PList (map PFloat h))])]) = Some e'
           \<and> \<not> warmup_inv (state_of e' ticker)
           \<and> snd (snd (compute_atr fa e' ticker tr)) = Inl TypeError"
      unfolding load_state_violating by blast
  }
qed

theorem warmup_invariant_guards_smoothing_witness:
  "warmup_inv (state_of ATREngine_init ''X'')
   \<and> snd (snd (compute_atr exact_ops ATREngine_init ''X'' 1)) = Inr None
   \<and> ATR_PERIOD \<le> length (replicate 14 (1::rat))
   \<and> (\<exists>e'. load_state (PDict [(''X'', PDict [(''prev_atr'', PNone),
                 (''tr_history'', PList (map PFloat (replicate 14 1)))])]) = Some e'
         \<and> \<not> warmup_inv (state_of e' ''X'')
         \<and> snd (snd (compute_atr exact_ops e' ''X'' 1)) = Inl TypeError)"
proof -
  have i: "warmup_inv (state_of ATREngine_init ''X'')"
    by (simp add: warmup_inv_def state_of_def ATREngine_init_def ATRState_init_def
        ATR_PERIOD_def)
  have l: "ATR_PERIOD \<le> length (replicate 14 (1::rat))" by (simp add: ATR_PERIOD_def)
  note T = warmup_invariant_guards_smoothing[of ATREngine_init "''X''" exact_ops 1
      "replicate 14 1"]
  have "snd (snd (compute_atr exact_ops ATREngine_init ''X'' 1)) = Inr None"
    by (simp add: compute_atr_def compute_atr_state_def ATREngine_init_def ATRState_init_def
        ATR_PERIOD_def Let_def)
  with T i l show ?thesis by blast
qed


section \<open>Window assignment\<close>











section \<open>Gap filling\<close>

lemma OHLCCandle_new_gap_filled:
  "OHLCCandle_new
     [''window_start'', ''open'', ''high'', ''low'', ''close'', ''tick_count'', ''gap_filled'']
     w o' h l c n = Inl TypeError"
  by (simp add: OHLCCandle_new_def OHLCCandle_fields_def)

lemma fill_loop_fillable_gap:
  assumes "s \<in> set expected" "candles s = None" "lc s \<noteq> None"
  shows "fill_loop lc w expected (candles, n, unf, fs) = Inl TypeError"
  using assms
proof (induction expected arbitrary: n unf fs)
  case Nil
  then show ?case by simp
next
  case (Cons x xs)
  show ?case
  proof (cases "candles x = None \<and> lc x \<noteq> None")
    case True
    then show ?thesis by (auto simp: OHLCCandle_new_gap_filled)
  next
    case False
    with Cons.prems have "s \<in> set xs" by auto
    from Cons.IH[OF this Cons.prems(2,3)] False show ?thesis
      by (auto split: option.splits)
  qed
qed

lemma fill_loop_no_fillable_gap:
  assumes "\<forall>s\<in>set expected. candles s = None \<longrightarrow> lc s = None"
  shows "fill_loop lc w expected (candles, n, unf, fs) =
           Inr (candles, n, unf @ filter (\<lambda>s. candles s = None) expected, fs)"
  using assms
  by (induction expected arbitrary: unf) (auto split: option.splits)

text \<open>
  Every call of fill with an expected symbol that is absent from the snapshot and has a
  recorded close raises TypeError: no flat candle is injected.
\<close>

lemma fill_raises_on_fillable_gap:
  assumes "s \<in> set expected" "candles s = None" "last_close g s = Some c"
  shows "fill g candles expected w = Inl TypeError"
  using fill_loop_fillable_gap[of s expected candles "last_close g" w 0 "[]" "[]"] assms
  by (simp add: fill_def)

text \<open>
  Without such a symbol fill returns the snapshot as it is, reports the absent symbols as
  unfillable and updates last\_close from every candle of the snapshot.
\<close>

lemma fill_without_fillable_gap:
  assumes "\<forall>s\<in>set expected. candles s = None \<longrightarrow> last_close g s = None"
  shows "fill g candles expected w =
           Inr (g\<lparr>last_close :=
                    (\<lambda>s. case candles s of Some c \<Rightarrow> Some (close c) | None \<Rightarrow> last_close g s)\<rparr>,
                candles, filter (\<lambda>s. candles s = None) expected)"
  using fill_loop_no_fillable_gap[OF assms, of w 0 "[]" "[]"]
  by (simp add: fill_def)

text \<open>
  C4. The second window of test\_gap\_fill\_happy\_path\_and\_cold\_start: AAPL closed at
  152 in the first window and is silent now, MSFT trades. The claim (and the test) expect
  a flat AAPL candle at 152 with tick\_count 0 and gap\_filled true in the merged
  snapshot; fill raises TypeError instead, because OHLCCandle has no gap\_filled field.
\<close>

theorem fill_gap_raises_TypeError:
  "fill \<lparr>last_close = [''AAPL'' \<mapsto> 152]\<rparr>
        [''MSFT'' \<mapsto> \<lparr>window_start = time_of_day 9 20, open' = 250, high = 255, low = 249,
                        close = 252, tick_count = 15\<rparr>]
        [''AAPL'', ''MSFT''] (time_of_day 9 20)
   = Inl TypeError"
  by (simp add: fill_def OHLCCandle_new_gap_filled)

section \<open>Deduplication in the writer\<close>

lemma existing_ids_cover:
  assumes "market_data_read store = Values all_values"
    and "\<forall>i\<in>set ids. store_has_id all_values w i"
  shows "\<exists>S. get_existing_ids_for_window store w = ([], Inr S) \<and> set ids \<subseteq> S"
proof (cases "all_values = [] \<or> length all_values \<le> 1")
  case True
  then have "tl all_values = []" by (cases all_values) auto
  with assms(2) have "set ids = {}" by (auto simp: store_has_id_def)
  with True assms(1) show ?thesis by (simp add: get_existing_ids_for_window_def)
next
  case False
  have "set ids \<subseteq> set (map (\<lambda>row. row ! 0)
                   (filter (\<lambda>row. 2 \<le> length row \<and> row ! 1 = w) (tl all_values)))"
    using assms(2) by (auto simp: store_has_id_def list_ex_iff)
  with False assms(1) show ?thesis by (simp add: get_existing_ids_for_window_def)
qed

text \<open>
  C2. A batch all of whose row ids the store already holds for the batch's window (the
  dedup query being answered): ids\_to\_write is empty, the writer logs DEDUP\_SKIP and
  returns, and no append\_rows call is made.
\<close>

theorem dedup_replay_appends_nothing:
  assumes "isofmt (batch_window_start batch) = Some w"
    and "market_data_read store = Values all_values"
    and "\<forall>i\<in>set (row_ids batch). store_has_id all_values w i"
  shows "process_batch isofmt store batch =
           ([DEDUP_SKIP (batch_window_start batch) (expected_count batch)], None)
         \<and> appended_rows (fst (process_batch isofmt store batch)) = []"
proof -
  from existing_ids_cover[OF assms(2,3)] obtain S where
    S: "get_existing_ids_for_window store w = ([], Inr S)" "set (row_ids batch) \<subseteq> S"
    by blast
  then have "set (row_ids batch) - S = {}" by blast
  then have "rows_to_write isofmt store batch =
               ([DEDUP_SKIP (batch_window_start batch) (expected_count batch)], Inr None)"
    using assms(1) S(1) by (simp add: rows_to_write_def Let_def)
  then show ?thesis by (simp add: process_batch_def)
qed

theorem dedup_replay_appends_nothing_witness:
  "process_batch (\<lambda>s. Some s)
     \<lparr>market_data_read = Values
        [[''id'', ''timestamp''],
         [''NIFTY_20260221_0920'', ''2026-02-21T09:20:00+05:30'']],
      write_get_sheet_raises = False,
      append_rows_response = (\<lambda>k. AppendReturnsOther)\<rparr>
     \<lparr>batch_window_start = ''2026-02-21T09:20:00+05:30'',
      rows = [[PStr ''NIFTY_20260221_0920'', PStr ''2026-02-21T09:20:00+05:30'']],
      row_ids = [''NIFTY_20260221_0920''],
      expected_count = 1\<rparr>
   = ([DEDUP_SKIP ''2026-02-21T09:20:00+05:30'' 1], None)"
proof -
  let ?vals = "[[''id'', ''timestamp''],
         [''NIFTY_20260221_0920'', ''2026-02-21T09:20:00+05:30'']]"
  let ?store = "\<lparr>market_data_read = Values ?vals,
      write_get_sheet_raises = False,
      append_rows_response = (\<lambda>k. AppendReturnsOther)\<rparr>"
  let ?batch = "\<lparr>batch_window_start = ''2026-02-21T09:20:00+05:30'',
      rows = [[PStr ''NIFTY_20260221_0920'', PStr ''2026-02-21T09:20:00+05:30'']],
      row_ids = [''NIFTY_20260221_0920''],
      expected_count = 1\<rparr>"
  have c: "\<forall>i\<in>set (row_ids ?batch). store_has_id ?vals ''2026-02-21T09:20:00+05:30'' i"
    by (simp add: store_has_id_def)
  from c dedup_replay_appends_nothing[of "\<lambda>s. Some s" ?batch
      "''2026-02-21T09:20:00+05:30''" ?store ?vals]
  show ?thesis by simp
qed

section \<open>The writer without a dedup answer\<close>













section \<open>Reconnect exhaustion\<close>

lemma attempt_reconnect_loop_false:
  "attempt_reconnect_loop m outcome draw k = (m', ev, Inr False) \<Longrightarrow>
     \<not> int (attempts m') < max_attempts m' \<and> attempts m \<le> attempts m'
     \<and> m' = m\<lparr>attempts := attempts m'\<rparr>"
proof (induction m outcome draw k arbitrary: ev rule: attempt_reconnect_loop.induct)
  case (1 m outcome draw k)
  show ?case
  proof (cases "int (attempts m) < max_attempts m")
    case False
    with "1.prems" show ?thesis by (simp add: attempt_reconnect_loop.simps[of m])
  next
    case True
    have nn: "\<not> backoff_delay m (draw k) < 0" and nok: "outcome k \<noteq> CycleOk"
      using "1.prems" True
      by (auto simp: attempt_reconnect_loop.simps[of m] split: if_splits)
    obtain m2 later r where
      rec: "attempt_reconnect_loop (count_attempt m) outcome draw (k + 1) = (m2, later, r)"
      by (cases "attempt_reconnect_loop (count_attempt m) outcome draw (k + 1)") auto
    from "1.prems" True nn nok rec have mr: "m2 = m'" "r = Inr False"
      by (simp_all add: attempt_reconnect_loop.simps[of m])
    have "\<not> int (attempts m') < max_attempts m' \<and> attempts (count_attempt m) \<le> attempts m'
           \<and> m' = (count_attempt m)\<lparr>attempts := attempts m'\<rparr>"
      using "1.IH"[OF True nn nok, of later] rec mr by simp
    then show ?thesis by (auto simp: count_attempt_def)
  qed
qed

lemma attempt_reconnect_loop_true:
  "attempt_reconnect_loop m outcome draw k = (m', ev, Inr True) \<Longrightarrow> attempts m' = 0"
proof (induction m outcome draw k arbitrary: ev rule: attempt_reconnect_loop.induct)
  case (1 m outcome draw k)
  show ?case
  proof (cases "int (attempts m) < max_attempts m")
    case False
    with "1.prems" show ?thesis by (simp add: attempt_reconnect_loop.simps[of m])
  next
    case True
    have nn: "\<not> backoff_delay m (draw k) < 0"
      using "1.prems" True
      by (auto simp: attempt_reconnect_loop.simps[of m] split: if_splits)
    show ?thesis
    proof (cases "outcome k = CycleOk")
      case ok: True
      with "1.prems" True nn show ?thesis
        by (auto simp: attempt_reconnect_loop.simps[of m] reset_def)
    next
      case nok: False
      obtain m2 later r where
        rec: "attempt_reconnect_loop (count_attempt m) outcome draw (k + 1) = (m2, later, r)"
        by (cases "attempt_reconnect_loop (count_attempt m) outcome draw (k + 1)") auto
      from "1.prems" True nn nok rec have mr: "m2 = m'" "r = Inr True"
        by (simp_all add: attempt_reconnect_loop.simps[of m])
      show ?thesis
        using "1.IH"[OF True nn nok, of later] rec mr by simp
    qed
  qed
qed

text \<open>
  C10. When attempt\_reconnect returns False, the attempt counter is left at or above
  max\_attempts (it is not reset, and nothing else of the manager changes); a later call
  without reset() sleeps for no backoff, calls none of refresh, connect and subscribe,
  fires CRITICAL RECONNECT\_EXHAUSTED again as its only effect and returns False. A call
  that returns True leaves the counter at 0.
\<close>

theorem exhausted_reconnect_stays_exhausted:
  "(attempt_reconnect m outcome draw = (m', ev, Inr False) \<longrightarrow>
      attempts m \<le> attempts m'
      \<and> max_attempts m' \<le> int (attempts m')
      \<and> m' = m\<lparr>attempts := attempts m'\<rparr>
      \<and> attempt_reconnect m' outcome' draw' =
          (m', [Alert CRITICAL RECONNECT_EXHAUSTED (attempts m')], Inr False))
   \<and> (attempt_reconnect m outcome draw = (m', ev, Inr True) \<longrightarrow> attempts m' = 0)"
proof (intro conjI impI)
  assume a: "attempt_reconnect m outcome draw = (m', ev, Inr False)"
  from attempt_reconnect_loop_false[of m outcome draw 0 m' ev] a
  have f: "\<not> int (attempts m') < max_attempts m'" "attempts m \<le> attempts m'"
    "m' = m\<lparr>attempts := attempts m'\<rparr>"
    by (simp_all add: attempt_reconnect_def)
  show "attempts m \<le> attempts m'" by (rule f(2))
  show "max_attempts m' \<le> int (attempts m')" using f(1) by simp
  show "m' = m\<lparr>attempts := attempts m'\<rparr>" by (rule f(3))
  show "attempt_reconnect m' outcome' draw' =
          (m', [Alert CRITICAL RECONNECT_EXHAUSTED (attempts m')], Inr False)"
    using f(1) by (simp add: attempt_reconnect_def attempt_reconnect_loop.simps[of m'])
next
  assume "attempt_reconnect m outcome draw = (m', ev, Inr True)"
  then show "attempts m' = 0"
    using attempt_reconnect_loop_true[of m outcome draw 0 m' ev]
    by (simp add: attempt_reconnect_def)
qed

theorem exhausted_reconnect_stays_exhausted_witness:
  "attempt_reconnect
     \<lparr>base_delay_s = 2, max_delay_s = 120, backoff_factor = 2, max_attempts = 3,
      jitter = False, alert_threshold = 2, attempts = 0\<rparr>
     (\<lambda>k. ConnectRaises) (\<lambda>k. 1)
   = (\<lparr>base_delay_s = 2, max_delay_s = 120, backoff_factor = 2, max_attempts = 3,
       jitter = False, alert_threshold = 2, attempts = 3\<rparr>,
      [SleepFor 2, Refresh, Connect, Alert WARNING RECONNECT_ATTEMPT 1,
       SleepFor 4, Refresh, Connect, Alert CRITICAL RECONNECT_FAILING 2,
       SleepFor 8, Refresh, Connect, Alert CRITICAL RECONNECT_FAILING 3,
       Alert CRITICAL RECONNECT_EXHAUSTED 3],
      Inr False)
   \<and> attempt_reconnect
       \<lparr>base_delay_s = 2, max_delay_s = 120, backoff_factor = 2, max_attempts = 3,
        jitter = False, alert_threshold = 2, attempts = 3\<rparr>
       (\<lambda>k. CycleOk) (\<lambda>k. 1)
     = (\<lparr>base_delay_s = 2, max_delay_s = 120, backoff_factor = 2, max_attempts = 3,
         jitter = False, alert_threshold = 2, attempts = 3\<rparr>,
        [Alert CRITICAL RECONNECT_EXHAUSTED 3], Inr False)"
proof -
  let ?m = "\<lparr>base_delay_s = 2, max_delay_s = 120, backoff_factor = 2, max_attempts = 3,
      jitter = False, alert_threshold = 2, attempts = 0\<rparr>"
  let ?m' = "\<lparr>base_delay_s = 2, max_delay_s = 120, backoff_factor = 2, max_attempts = 3,
       jitter = False, alert_threshold = 2, attempts = 3\<rparr>"
  let ?ev = "[SleepFor 2, Refresh, Connect, Alert WARNING RECONNECT_ATTEMPT 1,
       SleepFor 4, Refresh, Connect, Alert CRITICAL RECONNECT_FAILING 2,
       SleepFor 8, Refresh, Connect, Alert CRITICAL RECONNECT_FAILING 3,
       Alert CRITICAL RECONNECT_EXHAUSTED 3]"
  have first: "attempt_reconnect ?m (\<lambda>k. ConnectRaises) (\<lambda>k. 1) = (?m', ?ev, Inr False)"
    by (simp add: attempt_reconnect_def attempt_reconnect_loop.simps backoff_delay_def
        count_attempt_def failure_alerts_def)
  from exhausted_reconnect_stays_exhausted[of ?m "\<lambda>k. ConnectRaises" "\<lambda>k. 1" ?m' ?ev
      "\<lambda>k. CycleOk" "\<lambda>k. 1"] first
  show ?thesis by simp
qed

section \<open>Checkpoint round trip\<close>

lemma load_state_entry_get_state:
  "load_state_entry
     (PDict [(''prev_close'', opt_pyval (prev_close st)),
             (''prev_atr'', opt_pyval (prev_atr st)),
             (''tr_history'', PList (map PFloat (tr_history st))),
             (''candle_count'', PInt (candle_count st))]) = Some st"
  by (cases "prev_close st"; cases "prev_atr st")
     (simp_all add: dict_get_def opt_pyval_def those_map_float)

lemma load_state_get_state: "load_state (get_state e) = Some e"
proof -
  have "those (map (\<lambda>(ticker, data). map_option (Pair ticker) (load_state_entry data))
          (map (\<lambda>(ticker, st). (ticker,
        PDict [(''prev_close'', opt_pyval (prev_close st)),
               (''prev_atr'', opt_pyval (prev_atr st)),
               (''tr_history'', PList (map PFloat (tr_history st))),
               (''candle_count'', PInt (candle_count st))])) e)) = Some e"
    by (induction e)
       (auto simp: load_state_entry_get_state simp del: load_state_entry.simps)
  then show ?thesis by (simp add: get_state_def)
qed

text \<open>
  C7. When save\_checkpoint(s, w, f) returns (the write succeeds), for every state map s,
  window w, flag f and earlier content of the directory, load\_checkpoint() returns the
  checkpoint just written: its atr\_state is s, its last\_window is w.isoformat() and its
  sheets\_write\_confirmed is f. For s = get\_state() of an engine, load\_state of the
  atr\_state read back gives that engine's per-ticker records again, tr\_history included.
\<close>

theorem checkpoint_round_trip:
  assumes "write_succeeds env"
  shows "snd (save_checkpoint env dir (PDict s) w f) = None
     \<and> (\<exists>data. load_checkpoint (fst (save_checkpoint env dir (PDict s) w f))
                 = Inr (Some (PDict data))
           \<and> map_of data ''atr_state'' = Some (PDict s)
           \<and> map_of data ''last_window'' = Some (PStr (isoformat env w))
           \<and> map_of data ''sheets_write_confirmed'' = Some (PBool f))
     \<and> (\<exists>data st. load_checkpoint (fst (save_checkpoint env dir (get_state e) w f))
                 = Inr (Some (PDict data))
           \<and> map_of data ''atr_state'' = Some st \<and> load_state st = Some e)"
proof -
  let ?data = "\<lambda>a. [(''last_window'', PStr (isoformat env w)), (''atr_state'', a),
             (''saved_at'', PStr (saved_at_now env)), (''sheets_write_confirmed'', PBool f)]"
  have sv: "save_checkpoint env dir a w f =
              ((rotate_checkpoints dir)(CheckpointJson \<mapsto> JsonObject (?data a)), None)" for a
    using assms by (simp add: save_checkpoint_def Let_def)
  have ld: "load_checkpoint (d(CheckpointJson \<mapsto> JsonObject (?data (PDict kvs))))
              = Inr (Some (PDict (?data (PDict kvs))))" for d kvs
    by (simp add: load_checkpoint_def try_load_def dict_get_def)
  have 1: "snd (save_checkpoint env dir (PDict s) w f) = None" by (simp add: sv)
  have 2: "\<exists>data. load_checkpoint (fst (save_checkpoint env dir (PDict s) w f))
                 = Inr (Some (PDict data))
           \<and> map_of data ''atr_state'' = Some (PDict s)
           \<and> map_of data ''last_window'' = Some (PStr (isoformat env w))
           \<and> map_of data ''sheets_write_confirmed'' = Some (PBool f)"
    by (rule exI[of _ "?data (PDict s)"]) (simp add: sv ld)
  obtain kvs where g: "get_state e = PDict kvs" by (simp add: get_state_def)
  have "load_checkpoint (fst (save_checkpoint env dir (get_state e) w f))
                 = Inr (Some (PDict (?data (get_state e))))
           \<and> map_of (?data (get_state e)) ''atr_state'' = Some (get_state e)
           \<and> load_state (get_state e) = Some e"
    by (simp add: sv load_state_get_state) (simp add: g ld)
  then have 3: "\<exists>data st. load_checkpoint (fst (save_checkpoint env dir (get_state e) w f))
                 = Inr (Some (PDict data))
           \<and> map_of data ''atr_state'' = Some st \<and> load_state st = Some e"
    by blast
  from 1 2 3 show ?thesis by blast
qed

theorem checkpoint_round_trip_witness:
  "\<exists>data. load_checkpoint (fst (save_checkpoint
       \<lparr>isoformat = (\<lambda>t. ''2026-02-21T09:20:00+05:30''), saved_at_now = ''now'',
        write_succeeds = True\<rparr>
       [CheckpointJson \<mapsto> Unparsable]
       (PDict [(''NIFTY'', PDict [(''prev_close'', PFloat 250), (''prev_atr'', PNone),
                                  (''tr_history'', PList [PFloat 1, PFloat 3]),
                                  (''candle_count'', PInt 2)])])
       (time_of_day 9 20) False))
     = Inr (Some (PDict data))
   \<and> map_of data ''atr_state'' =
       Some (PDict [(''NIFTY'', PDict [(''prev_close'', PFloat 250), (''prev_atr'', PNone),
                                     (''tr_history'', PList [PFloat 1, PFloat 3]),
                                     (''candle_count'', PInt 2)])])
   \<and> map_of data ''last_window'' = Some (PStr ''2026-02-21T09:20:00+05:30'')
   \<and> map_of data ''sheets_write_confirmed'' = Some (PBool False)"
proof -
  let ?env = "\<lparr>isoformat = (\<lambda>t. ''2026-02-21T09:20:00+05:30''), saved_at_now = ''now'',
        write_succeeds = True\<rparr>"
  have h: "write_succeeds ?env" by simp
  from checkpoint_round_trip[OF h, of "[CheckpointJson \<mapsto> Unparsable]"
      "[(''NIFTY'', PDict [(''prev_close'', PFloat 250), (''prev_atr'', PNone),
                                  (''tr_history'', PList [PFloat 1, PFloat 3]),
                                  (''candle_count'', PInt 2)])]" "time_of_day 9 20" False]
  show ?thesis by simp
qed

section \<open>Exceptions in the boundary finalization\<close>






text \<open>
  On the source as it is, process\_batch does not return for a non-empty snapshot: after
  the first candle's ATR it reads candle.gap\_filled and raises (or compute\_atr has raised
  before). In \_finalize\_at\_boundary this exception leaves the function like any other.
\<close>

lemma process_batch_atr_raises:
  assumes "candles \<noteq> []"
  shows "\<exists>e' err. process_batch_atr fa e candles = (e', Inl err)"
proof -
  from assms obtain ticker candle rest where c: "candles = (ticker, candle) # rest"
    by (cases candles) auto
  show ?thesis
    unfolding process_batch_atr_def c
    by (auto simp: Let_def read_gap_filled_def split: prod.splits sum.splits)
qed

end
